theory Spec2Isabelle
  imports Complex_Main "HOL-Library.AList"
begin

section \<open>Combine Animations: a model of \<open>CombineAnimations.py\<close>\<close>

text \<open>
  The add-on is a Blender operator. The host's scene is modelled as an explicit state
  record that every step takes and returns; the helper methods that only read the scene
  graph are pure functions.

  Conventions of the model:
  \<^item> an object is identified by its name (the host keeps object names unique, and the
    add-on itself keys its tables by \<open>obj.name\<close>);
  \<^item> the parent/child links of the scene graph are a finite tree (\<open>node\<close>); the add-on
    never changes them;
  \<^item> names are byte strings, and \<open>str.lower\<close> acts on the letters A to Z;
  \<^item> frames and values are Python floats without NaN, modelled as real numbers, with
    the two infinities that \<open>find_animation_range\<close> starts from;
  \<^item> an exception that leaves a method is a value (\<open>Inl\<close>), next to the state reached
    when it was raised;
  \<^item> of the operator's reports only WARNING and ERROR ones are recorded; the INFO
    reports (most of them under \<open>debug_mode\<close>) change nothing else and are left out,
    and so is the interaction mode, which \<open>execute\<close> only touches inside
    \<open>try\<close>/\<open>except\<close>.
\<close>

subsection \<open>Strings\<close>

definition lower_char :: "char \<Rightarrow> char" where
  "lower_char c =
     (case map_of (zip ''ABCDEFGHIJKLMNOPQRSTUVWXYZ'' ''abcdefghijklmnopqrstuvwxyz'') c of
        Some d \<Rightarrow> d
      | None \<Rightarrow> c)"

definition lower :: "string \<Rightarrow> string" where
  "lower s = map lower_char s"

fun startswith :: "string \<Rightarrow> string \<Rightarrow> bool" where
  "startswith s [] = True"
| "startswith [] (p # ps) = False"
| "startswith (c # cs) (p # ps) = (c = p \<and> startswith cs ps)"

text \<open>\<open>contains sub s\<close> is Python's \<open>sub in s\<close>.\<close>

fun contains :: "string \<Rightarrow> string \<Rightarrow> bool" where
  "contains sub [] = (sub = [])"
| "contains sub (c # cs) = (startswith (c # cs) sub \<or> contains sub cs)"

text \<open>\<open>s.replace(a, b)\<close> for single characters \<open>a\<close> and \<open>b\<close>.\<close>

definition replace_char :: "char \<Rightarrow> char \<Rightarrow> string \<Rightarrow> string" where
  "replace_char a b s = map (\<lambda>c. if c = a then b else c) s"

subsection \<open>The scene graph\<close>

datatype node = Node (name: string) (children: "node list")

fun count_descendants :: "node \<Rightarrow> nat" where
  "count_descendants (Node n cs) = length cs + sum_list (map count_descendants cs)"

fun get_hierarchy_objects :: "node \<Rightarrow> node list" where
  "get_hierarchy_objects (Node n cs) = Node n cs # concat (map get_hierarchy_objects cs)"

text \<open>The child links as a relation, to say what a descendant is.\<close>

definition child_rel :: "(node \<times> node) set" where
  "child_rel = {(p, c). c \<in> set (children p)}"

subsection \<open>Choosing the root\<close>

definition named_root :: "node \<Rightarrow> bool" where
  "named_root obj =
     (contains ''root'' (lower (name obj)) \<or>
      startswith (lower (name obj)) ''player'' \<or>
      startswith (lower (name obj)) ''character'' \<or>
      startswith (lower (name obj)) ''rig'')"

definition named_visual :: "node \<Rightarrow> bool" where
  "named_visual obj = contains ''visual'' (lower (name obj))"

text \<open>
  The third loop of \<open>find_root_object\<close>: the pair is \<open>(max_children, root_obj)\<close>,
  starting from \<open>(-1, None)\<close>.
\<close>

definition most_children_step :: "node \<Rightarrow> int \<times> node option \<Rightarrow> int \<times> node option" where
  "most_children_step obj acc =
     (let descendants = int (count_descendants obj) in
      if descendants > fst acc then (descendants, Some obj) else acc)"

definition find_root_object :: "node list \<Rightarrow> node option" where
  "find_root_object objs =
     (case find named_root objs of
        Some obj \<Rightarrow> Some obj
      | None \<Rightarrow>
          (case find named_visual objs of
             Some obj \<Rightarrow> Some obj
           | None \<Rightarrow> snd (fold most_children_step objs (-1, None))))"

subsection \<open>Names of the custom properties\<close>

datatype py_error = IndexError | OverflowError

definition transform_props :: "string list" where
  "transform_props = [''location'', ''rotation_euler'', ''scale'']"

text \<open>\<open>["x", "y", "z"][axis]\<close>; the array index of a curve is not negative.\<close>

definition component :: "nat \<Rightarrow> py_error + string" where
  "component axis = (if axis < 3 then Inr ([''x'', ''y'', ''z''] ! axis) else Inl IndexError)"

definition clean_obj_name :: "string \<Rightarrow> string" where
  "clean_obj_name obj_name = replace_char CHR '' '' CHR ''_'' (replace_char CHR ''.'' CHR ''_'' obj_name)"

text \<open>
  The key of the custom property of a transform channel; both passes of
  \<open>create_standalone_action\<close> compute it with the same lines.
\<close>

definition prop_key :: "string \<Rightarrow> string \<Rightarrow> nat \<Rightarrow> py_error + string" where
  "prop_key obj_name prop_name axis =
     (case component axis of
        Inl e \<Rightarrow> Inl e
      | Inr cmp \<Rightarrow>
          if prop_name = ''location'' then Inr (clean_obj_name obj_name @ ''_loc_'' @ cmp)
          else if prop_name = ''rotation_euler'' then Inr (clean_obj_name obj_name @ ''_rot_'' @ cmp)
          else Inr (clean_obj_name obj_name @ ''_scale_'' @ cmp))"

text \<open>The data path \<open>["key"]\<close> of a custom property.\<close>

definition custom_path :: "string \<Rightarrow> string" where
  "custom_path key = ''['' @ [CHR 0x22] @ key @ [CHR 0x22] @ '']''"

subsection \<open>Animation data of the host\<close>

type_synonym keyframe = "real \<times> real"

record FCurve =
  data_path :: string
  array_index :: nat
  keyframe_points :: "keyframe list"

record Action =
  action_name :: string
  use_fake_user :: bool
  fcurves :: "FCurve list"

record DriverVariable =
  var_name :: string
  var_type :: string
  target_id :: string
  target_data_path :: string

record Driver =
  driver_data_path :: string
  driver_array_index :: nat
  variables :: "DriverVariable list"
  expression :: string

text \<open>An object refers to its action by the action's position in \<open>bpy.data.actions\<close>.\<close>

record AnimData =
  action :: "nat option"
  nla_tracks :: "string list"
  drivers :: "Driver list"

record Object =
  animation_data :: "AnimData option"
  custom_properties :: "string \<rightharpoonup> real"

datatype level = WARNING | ERROR

text \<open>
  The text of a report. \<open>DriverError obj prop axis\<close> stands for
  \<open>"Error creating driver for {obj}.{prop}[{axis}]: {e}"\<close>.
\<close>

datatype message = Text string | DriverError string string nat

text \<open>
  The state of the host. \<open>objects\<close> gives the state of the object of each name and
  \<open>data_objects\<close> the names that are in \<open>bpy.data.objects\<close>. \<open>driver_add_fails\<close> is the
  host's side of \<open>obj.driver_add\<close>: the channels for which the call raises.
\<close>

record blend =
  objects :: "string \<Rightarrow> Object"
  data_objects :: "string set"
  actions :: "Action list"
  selected_objects :: "node list"
  active :: "node option"
  area_type :: string
  frame_start :: int
  frame_end :: int
  frame_current :: int
  reports :: "(level \<times> message) list"
  driver_add_fails :: "string \<Rightarrow> string \<Rightarrow> nat \<Rightarrow> bool"

record operator =
  target_action_name :: string
  keep_original_actions :: bool
  add_root_track :: bool
  frame_margin :: int
  debug_mode :: bool

datatype status = FINISHED | CANCELLED

definition report :: "level \<Rightarrow> message \<Rightarrow> blend \<Rightarrow> blend" where
  "report l m st = st\<lparr>reports := reports st @ [(l, m)]\<rparr>"

text \<open>\<open>obj.animation_data and obj.animation_data.action\<close>.\<close>

definition has_action :: "blend \<Rightarrow> node \<Rightarrow> bool" where
  "has_action st obj =
     (case animation_data (objects st (name obj)) of
        None \<Rightarrow> False
      | Some ad \<Rightarrow> action ad \<noteq> None)"

text \<open>
  \<open>obj.animation_data.action.fcurves\<close> of an object that has an action (a reference
  to no action of the store has no curves).
\<close>

definition action_fcurves :: "blend \<Rightarrow> node \<Rightarrow> FCurve list" where
  "action_fcurves st obj =
     (case animation_data (objects st (name obj)) of
        None \<Rightarrow> []
      | Some ad \<Rightarrow>
          (case action ad of
             None \<Rightarrow> []
           | Some a \<Rightarrow> if a < length (actions st) then fcurves (actions st ! a) else []))"

subsection \<open>The frame range\<close>

datatype xframe = NegInf | Fin real | PosInf

fun xless :: "xframe \<Rightarrow> xframe \<Rightarrow> bool" where
  "xless NegInf b = (b \<noteq> NegInf)"
| "xless (Fin a) NegInf = False"
| "xless (Fin a) (Fin b) = (a < b)"
| "xless (Fin a) PosInf = True"
| "xless PosInf b = False"

text \<open>Python's \<open>min(a, b)\<close> and \<open>max(a, b)\<close>: the first argument unless the second is better.\<close>

definition py_min :: "xframe \<Rightarrow> xframe \<Rightarrow> xframe" where
  "py_min a b = (if xless b a then b else a)"

definition py_max :: "xframe \<Rightarrow> xframe \<Rightarrow> xframe" where
  "py_max a b = (if xless a b then b else a)"

definition xadd :: "xframe \<Rightarrow> int \<Rightarrow> xframe" where
  "xadd x m = (case x of Fin a \<Rightarrow> Fin (a + of_int m) | _ \<Rightarrow> x)"

definition xsub :: "xframe \<Rightarrow> int \<Rightarrow> xframe" where
  "xsub x m = (case x of Fin a \<Rightarrow> Fin (a - of_int m) | _ \<Rightarrow> x)"

text \<open>\<open>int(x)\<close> truncates towards zero and raises on an infinity.\<close>

definition py_int :: "xframe \<Rightarrow> py_error + int" where
  "py_int x =
     (case x of
        Fin a \<Rightarrow> Inr (if 0 \<le> a then \<lfloor>a\<rfloor> else \<lceil>a\<rceil>)
      | _ \<Rightarrow> Inl OverflowError)"

definition range_step :: "FCurve \<Rightarrow> xframe \<times> xframe \<Rightarrow> xframe \<times> xframe" where
  "range_step fcurve r =
     (if length (keyframe_points fcurve) > 0
      then (py_min (fst r) (Fin (fst (hd (keyframe_points fcurve)))),
            py_max (snd r) (Fin (fst (last (keyframe_points fcurve)))))
      else r)"

definition find_animation_range :: "blend \<Rightarrow> node list \<Rightarrow> xframe \<times> xframe" where
  "find_animation_range st objs =
     fold (\<lambda>obj r. if has_action st obj then fold range_step (action_fcurves st obj) r else r)
       objs (PosInf, NegInf)"

text \<open>Lines 131 to 137 of \<open>execute\<close>: the scene's range, or the range found with the margin.\<close>

definition margin_range :: "operator \<Rightarrow> blend \<Rightarrow> xframe \<times> xframe \<Rightarrow> xframe \<times> xframe" where
  "margin_range self st r =
     (if fst r = PosInf \<or> snd r = NegInf
      then (Fin (of_int (frame_start st)), Fin (of_int (frame_end st)))
      else (py_max (Fin 1) (xsub (fst r) (frame_margin self)), xadd (snd r) (frame_margin self)))"

subsection \<open>Collecting the keyframes\<close>

text \<open>
  The nested dictionary \<open>{obj_name: {prop_name: {axis: [(frame, value)]}}}\<close>, as
  association lists in insertion order; \<open>AList.update\<close> is the assignment \<open>d[k] = v\<close>.
\<close>

type_synonym axes_dict = "(nat \<times> keyframe list) list"
type_synonym props_dict = "(string \<times> axes_dict) list"
type_synonym anim_dict = "(string \<times> props_dict) list"

definition collect_fcurve :: "FCurve \<Rightarrow> props_dict \<Rightarrow> props_dict" where
  "collect_fcurve fcurve obj_data =
     (let prop_name = data_path fcurve;
          axis = array_index fcurve;
          keyframes = map (\<lambda>kf. (fst kf, snd kf)) (keyframe_points fcurve)
      in case map_of obj_data prop_name of
           None \<Rightarrow> AList.update prop_name [(axis, keyframes)] obj_data
         | Some axes \<Rightarrow> AList.update prop_name (AList.update axis keyframes axes) obj_data)"

definition collect_object :: "blend \<Rightarrow> node \<Rightarrow> anim_dict \<Rightarrow> anim_dict" where
  "collect_object st obj dict =
     (if \<not> has_action st obj then dict
      else
        let obj_data = fold collect_fcurve (action_fcurves st obj) []
        in if obj_data \<noteq> [] then AList.update (name obj) obj_data dict else dict)"

definition collect_animation_data :: "blend \<Rightarrow> node list \<Rightarrow> anim_dict" where
  "collect_animation_data st animated_objects = fold (collect_object st) animated_objects []"

subsection \<open>Writing the master action\<close>

text \<open>A \<open>for\<close> loop whose body may raise: the loop stops at the first exception.\<close>

fun for_each :: "('a \<Rightarrow> 's \<Rightarrow> py_error option \<times> 's) \<Rightarrow> 'a list \<Rightarrow> 's \<Rightarrow> py_error option \<times> 's" where
  "for_each body [] s = (None, s)"
| "for_each body (x # xs) s =
     (case body x s of
        (Some e, s') \<Rightarrow> (Some e, s')
      | (None, s') \<Rightarrow> for_each body xs s')"

text \<open>
  \<open>keyframe_points.insert(frame, value)\<close>: the host keeps the points of a curve in the
  order of their frames and replaces the point of a frame that has one.
\<close>

fun kp_insert :: "real \<Rightarrow> real \<Rightarrow> keyframe list \<Rightarrow> keyframe list" where
  "kp_insert frame v [] = [(frame, v)]"
| "kp_insert frame v (k # ks) =
     (if frame < fst k then (frame, v) # k # ks
      else if frame = fst k then (frame, v) # ks
      else k # kp_insert frame v ks)"

definition insert_keyframes :: "keyframe list \<Rightarrow> keyframe list" where
  "insert_keyframes keyframes = fold (\<lambda>kf kps. kp_insert (fst kf) (snd kf) kps) keyframes []"

text \<open>\<open>fcurves.new\<close> on the action at position \<open>a\<close>, followed by the inserts.\<close>

definition new_fcurve :: "nat \<Rightarrow> string \<Rightarrow> nat \<Rightarrow> keyframe list \<Rightarrow> blend \<Rightarrow> blend" where
  "new_fcurve a path idx keyframes st =
     st\<lparr>actions := (actions st)
        [a := (actions st ! a)\<lparr>fcurves := fcurves (actions st ! a) @
           [\<lparr>data_path = path, array_index = idx,
             keyframe_points = insert_keyframes keyframes\<rparr>]\<rparr>]\<rparr>"

definition set_custom :: "string \<Rightarrow> string \<Rightarrow> real \<Rightarrow> blend \<Rightarrow> blend" where
  "set_custom n key v st =
     st\<lparr>objects := (objects st)
        (n := (objects st n)\<lparr>custom_properties := (custom_properties (objects st n))(key \<mapsto> v)\<rparr>)\<rparr>"

definition first_pass_axis ::
  "string \<Rightarrow> nat \<Rightarrow> string \<Rightarrow> string \<Rightarrow> nat \<times> keyframe list \<Rightarrow> blend \<Rightarrow> py_error option \<times> blend" where
  "first_pass_axis root_name master_action obj_name prop_name ax st =
     (let axis = fst ax; keyframes = snd ax in
      if obj_name = root_name \<and> prop_name \<in> set transform_props
      then (None, new_fcurve master_action prop_name axis keyframes st)
      else if prop_name \<in> set transform_props then
        (case prop_key obj_name prop_name axis of
           Inl e \<Rightarrow> (Some e, st)
         | Inr key \<Rightarrow>
             let st' = (if custom_properties (objects st root_name) key = None
                        then set_custom root_name key 0 st else st)
             in (None, new_fcurve master_action (custom_path key) 0 keyframes st'))
      else (None, st))"

definition first_pass :: "string \<Rightarrow> nat \<Rightarrow> anim_dict \<Rightarrow> blend \<Rightarrow> py_error option \<times> blend" where
  "first_pass root_name master_action dict st =
     for_each (\<lambda>(obj_name, props).
       for_each (\<lambda>(prop_name, axes).
         for_each (first_pass_axis root_name master_action obj_name prop_name) axes) props) dict st"

subsection \<open>Drivers\<close>

definition empty_anim_data :: AnimData where
  "empty_anim_data = \<lparr>action = None, nla_tracks = [], drivers = []\<rparr>"

definition animation_data_create :: "string \<Rightarrow> blend \<Rightarrow> blend" where
  "animation_data_create n st =
     st\<lparr>objects := (objects st)(n := (objects st n)\<lparr>animation_data := Some empty_anim_data\<rparr>)\<rparr>"

definition ensure_animation_data :: "string \<Rightarrow> blend \<Rightarrow> blend" where
  "ensure_animation_data n st =
     (if animation_data (objects st n) = None then animation_data_create n st else st)"

text \<open>An update of the animation data of an object that has some.\<close>

definition update_anim :: "string \<Rightarrow> (AnimData \<Rightarrow> AnimData) \<Rightarrow> blend \<Rightarrow> blend" where
  "update_anim n f st =
     (case animation_data (objects st n) of
        None \<Rightarrow> st
      | Some ad \<Rightarrow> st\<lparr>objects := (objects st)(n := (objects st n)\<lparr>animation_data := Some (f ad)\<rparr>)\<rparr>)"

definition driver_remove :: "string \<Rightarrow> string \<Rightarrow> nat \<Rightarrow> blend \<Rightarrow> blend" where
  "driver_remove n path idx st =
     update_anim n (\<lambda>ad. ad\<lparr>drivers :=
       filter (\<lambda>d. \<not> (driver_data_path d = path \<and> driver_array_index d = idx)) (drivers ad)\<rparr>) st"

definition driver_add :: "string \<Rightarrow> Driver \<Rightarrow> blend \<Rightarrow> blend" where
  "driver_add n d st =
     update_anim n (\<lambda>ad. ad\<lparr>drivers := drivers ad @ [d]\<rparr>) (ensure_animation_data n st)"

text \<open>The driver that the second pass builds: one variable reading the custom property.\<close>

definition value_driver :: "string \<Rightarrow> string \<Rightarrow> nat \<Rightarrow> string \<Rightarrow> Driver" where
  "value_driver root_name prop_name axis key =
     \<lparr>driver_data_path = prop_name, driver_array_index = axis,
      variables = [\<lparr>var_name = ''value'', var_type = ''SINGLE_PROP'',
                    target_id = root_name, target_data_path = custom_path key\<rparr>],
      expression = ''value''\<rparr>"

definition second_pass_axis ::
  "string \<Rightarrow> string \<Rightarrow> string \<Rightarrow> nat \<times> keyframe list \<Rightarrow> blend \<Rightarrow> py_error option \<times> blend" where
  "second_pass_axis root_name obj_name prop_name ax st =
     (let axis = fst ax in
      case prop_key obj_name prop_name axis of
        Inl e \<Rightarrow> (Some e, st)
      | Inr key \<Rightarrow>
          let st' = driver_remove obj_name prop_name axis st
          in if driver_add_fails st obj_name prop_name axis
             then (None, report WARNING (DriverError obj_name prop_name axis) st')
             else (None, driver_add obj_name (value_driver root_name prop_name axis key) st'))"

definition second_pass_prop ::
  "string \<Rightarrow> string \<Rightarrow> string \<times> axes_dict \<Rightarrow> blend \<Rightarrow> py_error option \<times> blend" where
  "second_pass_prop root_name obj_name pa st =
     (if fst pa \<notin> set transform_props then (None, st)
      else for_each (second_pass_axis root_name obj_name (fst pa)) (snd pa) st)"

definition second_pass_object ::
  "string \<Rightarrow> string \<times> props_dict \<Rightarrow> blend \<Rightarrow> py_error option \<times> blend" where
  "second_pass_object root_name op st =
     (if fst op = root_name then (None, st)
      else if fst op \<notin> data_objects st then (None, st)
      else for_each (second_pass_prop root_name (fst op)) (snd op) (ensure_animation_data (fst op) st))"

definition second_pass :: "string \<Rightarrow> anim_dict \<Rightarrow> blend \<Rightarrow> py_error option \<times> blend" where
  "second_pass root_name dict st = for_each (second_pass_object root_name) dict st"

subsection \<open>The operator\<close>

text \<open>Lines 332 to 341: the NLA tracks and the action of one object are removed.\<close>

definition remove_original :: "string \<Rightarrow> node \<Rightarrow> blend \<Rightarrow> blend" where
  "remove_original root_name obj st =
     (if name obj \<noteq> root_name \<and> has_action st obj
      then update_anim (name obj) (\<lambda>ad. ad\<lparr>action := None\<rparr>)
             (update_anim (name obj) (\<lambda>ad. ad\<lparr>nla_tracks := []\<rparr>) st)
      else st)"

definition create_standalone_action ::
  "operator \<Rightarrow> node \<Rightarrow> node list \<Rightarrow> blend \<Rightarrow> (py_error + status) \<times> blend" where
  "create_standalone_action self root_object animated_objects st =
     (let master_action = length (actions st);
          st1 = st\<lparr>actions := actions st @
                  [\<lparr>action_name = target_action_name self, use_fake_user = True, fcurves = []\<rparr>]\<rparr>;
          original_frame = frame_current st1;
          dict = collect_animation_data st1 animated_objects;
          st2 = ensure_animation_data (name root_object) st1;
          st3 = update_anim (name root_object) (\<lambda>ad. ad\<lparr>action := Some master_action\<rparr>) st2
      in case first_pass (name root_object) master_action dict st3 of
           (Some e, st4) \<Rightarrow> (Inl e, st4)
         | (None, st4) \<Rightarrow>
             (case second_pass (name root_object) dict st4 of
                (Some e, st5) \<Rightarrow> (Inl e, st5)
              | (None, st5) \<Rightarrow>
                  let st6 = (if \<not> keep_original_actions self
                             then fold (remove_original (name root_object)) animated_objects st5
                             else st5)
                  in (Inr FINISHED, st6\<lparr>frame_current := original_frame\<rparr>)))"

definition select_set :: "node \<Rightarrow> blend \<Rightarrow> blend" where
  "select_set obj st =
     (if obj \<in> set (selected_objects st) then st
      else st\<lparr>selected_objects := selected_objects st @ [obj]\<rparr>)"

text \<open>Lines 150 to 159 of \<open>execute\<close>.\<close>

definition restore_state :: "node list \<Rightarrow> node option \<Rightarrow> string \<Rightarrow> blend \<Rightarrow> blend" where
  "restore_state original_selected original_active original_area st =
     (let st1 = st\<lparr>selected_objects := []\<rparr>;
          st2 = fold (\<lambda>obj s. if name obj \<in> data_objects s then select_set obj s else s)
                  original_selected st1;
          st3 = (case original_active of
                   None \<Rightarrow> st2
                 | Some a \<Rightarrow> if name a \<in> data_objects st2 then st2\<lparr>active := Some a\<rparr> else st2)
      in st3\<lparr>area_type := original_area\<rparr>)"

definition execute :: "operator \<Rightarrow> blend \<Rightarrow> (py_error + status) \<times> blend" where
  "execute self st =
     (let original_active = active st;
          original_area = area_type st;
          original_selected = selected_objects st
      in if selected_objects st = []
         then (Inr CANCELLED,
               report ERROR (Text ''Please select at least one object from your rig.'') st)
         else
           let base_objects = selected_objects st;
               st1 = (if active st = None then st\<lparr>active := Some (hd base_objects)\<rparr> else st)
           in case find_root_object base_objects of
                None \<Rightarrow>
                  (Inr CANCELLED,
                   report ERROR (Text
                     ''Could not determine root object. Please select a parent object with children.'')
                     st1)
              | Some root_object \<Rightarrow>
                  let all_objects = get_hierarchy_objects root_object;
                      animated_objects = filter (has_action st1) all_objects
                  in if animated_objects = []
                     then (Inr CANCELLED,
                           report WARNING (Text ''No animated objects found in the hierarchy.'') st1)
                     else
                       let r = margin_range self st1 (find_animation_range st1 animated_objects)
                       in (case py_int (fst r) of
                            Inl e \<Rightarrow> (Inl e, st1)
                          | Inr fs \<Rightarrow>
                              (case py_int (snd r) of
                                 Inl e \<Rightarrow> (Inl e, st1\<lparr>frame_start := fs\<rparr>)
                               | Inr fe \<Rightarrow>
                                   (case create_standalone_action self root_object animated_objects
                                           (st1\<lparr>frame_start := fs, frame_end := fe\<rparr>) of
                                      (Inl e, st2) \<Rightarrow> (Inl e, st2)
                                    | (Inr result, st2) \<Rightarrow>
                                        (Inr result,
                                         restore_state original_selected original_active
                                           original_area st2)))))"

subsection \<open>Notions used in the statements\<close>

text \<open>The curves that \<open>find_animation_range\<close> scans, and the frames of their keyframes.\<close>

definition scanned_curves :: "blend \<Rightarrow> node list \<Rightarrow> FCurve list" where
  "scanned_curves st objs =
     concat (map (\<lambda>obj. if has_action st obj then action_fcurves st obj else []) objs)"

definition keyframe_frames :: "FCurve list \<Rightarrow> real set" where
  "keyframe_frames fcs = (\<Union>fc\<in>set fcs. fst ` set (keyframe_points fc))"

definition range_of :: "real set \<Rightarrow> xframe \<times> xframe" where
  "range_of A = (if A = {} then (PosInf, NegInf) else (Fin (Min A), Fin (Max A)))"

text \<open>
  The part of the state that the operator is not meant to change, and the animation
  data of an object read through its name.
\<close>

definition editor_state ::
  "blend \<Rightarrow> node list \<times> node option \<times> string \<times> int \<times> int \<times> int \<times> string set \<times> (string \<Rightarrow> string \<Rightarrow> nat \<Rightarrow> bool)" where
  "editor_state st =
     (selected_objects st, active st, area_type st, frame_start st, frame_end st,
      frame_current st, data_objects st, driver_add_fails st)"

definition action_ref :: "blend \<Rightarrow> string \<Rightarrow> nat option" where
  "action_ref st n = (case animation_data (objects st n) of None \<Rightarrow> None | Some ad \<Rightarrow> action ad)"

definition nla_of :: "blend \<Rightarrow> string \<Rightarrow> string list" where
  "nla_of st n = (case animation_data (objects st n) of None \<Rightarrow> [] | Some ad \<Rightarrow> nla_tracks ad)"

definition drivers_of :: "blend \<Rightarrow> string \<Rightarrow> Driver list" where
  "drivers_of st n = (case animation_data (objects st n) of None \<Rightarrow> [] | Some ad \<Rightarrow> drivers ad)"

text \<open>The keyframes that the collected dictionary of one object holds for a channel.\<close>

definition channel_keyframes :: "props_dict \<Rightarrow> string \<Rightarrow> nat \<Rightarrow> keyframe list option" where
  "channel_keyframes obj_data p a =
     (case map_of obj_data p of None \<Rightarrow> None | Some axes \<Rightarrow> map_of axes a)"

text \<open>
  The dictionary has no transform channel of an object other than the root with an array
  index beyond the three components.
\<close>

definition indices_ok :: "string \<Rightarrow> anim_dict \<Rightarrow> bool" where
  "indices_ok root_name dict =
     (\<forall>x\<in>set dict. fst x \<noteq> root_name \<longrightarrow>
        (\<forall>y\<in>set (snd x). fst y \<in> set transform_props \<longrightarrow> (\<forall>z\<in>set (snd y). fst z < 3)))"

subsection \<open>A small scene\<close>

text \<open>
  A rig with one animated child. The child's action has a location curve, a quaternion
  curve and a scale curve; nothing is active and the rig is selected.
\<close>

definition example_arm :: node where
  "example_arm = Node ''Arm.L'' []"

definition example_rig :: node where
  "example_rig = Node ''Rig'' [example_arm]"

definition example_action :: Action where
  "example_action =
     \<lparr>action_name = ''ArmAction'', use_fake_user = False,
      fcurves =
        [\<lparr>data_path = ''location'', array_index = 0, keyframe_points = [(1, 0), (10, 2)]\<rparr>,
         \<lparr>data_path = ''rotation_quaternion'', array_index = 0, keyframe_points = [(3, 1)]\<rparr>,
         \<lparr>data_path = ''scale'', array_index = 2, keyframe_points = [(1, 1), (10, 1)]\<rparr>]\<rparr>"

definition example_scene :: blend where
  "example_scene =
     \<lparr>objects = (\<lambda>n. \<lparr>animation_data = None, custom_properties = Map.empty\<rparr>)
        (''Arm.L'' := \<lparr>animation_data =
            Some \<lparr>action = Some 0, nla_tracks = [''NlaTrack''], drivers = []\<rparr>,
          custom_properties = Map.empty\<rparr>),
      data_objects = {''Rig'', ''Arm.L''},
      actions = [example_action],
      selected_objects = [example_rig],
      active = None,
      area_type = ''DOPESHEET_EDITOR'',
      frame_start = 1, frame_end = 250, frame_current = 7,
      reports = [],
      driver_add_fails = (\<lambda>obj_name prop_name axis. False)\<rparr>"

text \<open>The same scene in a host where \<open>driver_add\<close> raises for every location channel.\<close>

definition example_failing_scene :: blend where
  "example_failing_scene =
     example_scene\<lparr>driver_add_fails := (\<lambda>obj_name prop_name axis. prop_name = ''location'')\<rparr>"

definition example_operator :: operator where
  "example_operator =
     \<lparr>target_action_name = ''Combined_Animation'', keep_original_actions = True,
      add_root_track = True, frame_margin = 0, debug_mode = True\<rparr>"

section \<open>Properties\<close>

subsection \<open>The hierarchy walker\<close>

lemma self_in_hierarchy: "r \<in> set (get_hierarchy_objects r)"
  by (cases r) simp

lemma child_hierarchy_subset:
  "c \<in> set (children p) \<Longrightarrow> set (get_hierarchy_objects c) \<subseteq> set (get_hierarchy_objects p)"
  by (cases p) auto

lemma hierarchy_reachable: "x \<in> set (get_hierarchy_objects r) \<Longrightarrow> (r, x) \<in> child_rel\<^sup>*"
proof (induction r arbitrary: x)
  case (Node n cs)
  show ?case
  proof (cases "x = Node n cs")
    case True
    then show ?thesis by simp
  next
    case False
    with Node.prems obtain c where c: "c \<in> set cs" "x \<in> set (get_hierarchy_objects c)"
      by auto
    then have "(c, x) \<in> child_rel\<^sup>*"
      using Node.IH by blast
    moreover have "(Node n cs, c) \<in> child_rel"
      using c(1) by (simp add: child_rel_def)
    ultimately show ?thesis
      by (rule converse_rtrancl_into_rtrancl [rotated])
  qed
qed

lemma reachable_hierarchy: "(r, x) \<in> child_rel\<^sup>* \<Longrightarrow> x \<in> set (get_hierarchy_objects r)"
proof (induction rule: converse_rtrancl_induct)
  case base
  show ?case by (rule self_in_hierarchy)
next
  case (step p c)
  then have "c \<in> set (children p)"
    by (simp add: child_rel_def)
  then show ?case
    using child_hierarchy_subset step.IH by blast
qed

text \<open>
  C6. Applied to the root, the hierarchy walker returns the objects of the root's
  subtree and nothing else: the root itself and every object that is reached from it by
  child links.
\<close>

theorem hierarchy_is_subtree:
  "set (get_hierarchy_objects root_obj) = insert root_obj {x. (root_obj, x) \<in> child_rel\<^sup>+}"
proof -
  have "set (get_hierarchy_objects root_obj) = {x. (root_obj, x) \<in> child_rel\<^sup>*}"
    using hierarchy_reachable reachable_hierarchy by blast
  then show ?thesis
    by (auto simp: rtrancl_eq_or_trancl)
qed

subsection \<open>The selection resolver\<close>




subsection \<open>Names of the custom properties\<close>

lemma append_suffix_eq:
  "(xs @ c # cs = ys @ d # ds) = (rev (c # cs) @ rev xs = rev (d # ds) @ rev ys)"
  by (metis rev_append rev_rev_ident)

lemma prop_key_cases:
  assumes "p \<in> set transform_props" "(a::nat) < 3"
  shows "(p = ''location'' \<or> p = ''rotation_euler'' \<or> p = ''scale'') \<and> (a = 0 \<or> a = 1 \<or> a = 2)"
  using assms by (auto simp: transform_props_def)

text \<open>
  C2, as stated, fails: two objects whose names differ only in a character that
  \<open>clean_obj_name\<close> replaces get the same key for the same channel.
\<close>

theorem prop_key_collision:
  "''Cube.001'' \<noteq> ''Cube_001'' \<and>
   prop_key ''Cube.001'' ''location'' 0 = prop_key ''Cube_001'' ''location'' 0"
  by (simp add: prop_key_def component_def clean_obj_name_def replace_char_def)

text \<open>
  C2, amended. For transform channels with an array index below 3, two channels get
  the same key exactly when their cleaned object names, their properties and their axes
  are the same.
\<close>

theorem prop_key_eq_iff:
  assumes "p1 \<in> set transform_props" "p2 \<in> set transform_props" "a1 < 3" "a2 < 3"
  shows "prop_key n1 p1 a1 = prop_key n2 p2 a2 \<longleftrightarrow>
           clean_obj_name n1 = clean_obj_name n2 \<and> p1 = p2 \<and> a1 = a2"
proof -
  from prop_key_cases [OF assms(1) assms(3)]
  have c1: "p1 = ''location'' \<or> p1 = ''rotation_euler'' \<or> p1 = ''scale''"
    and d1: "a1 = 0 \<or> a1 = 1 \<or> a1 = 2"
    by blast+
  from prop_key_cases [OF assms(2) assms(4)]
  have c2: "p2 = ''location'' \<or> p2 = ''rotation_euler'' \<or> p2 = ''scale''"
    and d2: "a2 = 0 \<or> a2 = 1 \<or> a2 = 2"
    by blast+
  from c1 c2 d1 d2 show ?thesis
    by (elim disjE) (simp_all add: prop_key_def component_def append_suffix_eq)
qed

theorem prop_key_eq_iff_witness:
  "''location'' \<in> set transform_props \<and> ''scale'' \<in> set transform_props \<and> (0::nat) < 3 \<and> (2::nat) < 3 \<and>
   prop_key ''Arm L'' ''location'' 0 \<noteq> prop_key ''Arm L'' ''scale'' 2 \<and>
   prop_key ''Arm L'' ''location'' 0 = prop_key ''Arm.L'' ''location'' 0"
  using prop_key_eq_iff [of "''location''" "''scale''" 0 2 "''Arm L''" "''Arm L''"]
    prop_key_eq_iff [of "''location''" "''location''" 0 0 "''Arm L''" "''Arm.L''"]
  by (simp add: transform_props_def clean_obj_name_def replace_char_def)

subsection \<open>The animation range finder\<close>

lemma find_animation_range_fold:
  "find_animation_range st objs = fold range_step (scanned_curves st objs) (PosInf, NegInf)"
proof -
  have "fold (\<lambda>obj r. if has_action st obj then fold range_step (action_fcurves st obj) r else r) objs r0
        = fold range_step (scanned_curves st objs) r0" for r0
    by (induction objs arbitrary: r0) (simp_all add: scanned_curves_def)
  then show ?thesis
    by (simp add: find_animation_range_def)
qed

lemma sorted_hd_Min:
  assumes "sorted xs" "xs \<noteq> []"
  shows "hd xs = Min (set xs)"
  using assms by (cases xs) (auto intro!: Min_eqI [symmetric])

lemma sorted_le_last: "sorted xs \<Longrightarrow> x \<in> set xs \<Longrightarrow> x \<le> last xs"
  by (induction xs) auto

lemma sorted_last_Max:
  assumes "sorted xs" "xs \<noteq> []"
  shows "last xs = Max (set xs)"
  using assms by (auto intro!: Max_eqI [symmetric] simp: sorted_le_last)

lemma py_min_Fin: "py_min (Fin a) (Fin b) = Fin (min a b)"
  by (simp add: py_min_def min_def)

lemma py_max_Fin: "py_max (Fin a) (Fin b) = Fin (max a b)"
  by (simp add: py_max_def max_def)

lemma range_step_range_of:
  assumes "finite A" "sorted (map fst (keyframe_points fc))"
  shows "range_step fc (range_of A) = range_of (A \<union> fst ` set (keyframe_points fc))"
proof (cases "keyframe_points fc = []")
  case True
  then show ?thesis by (simp add: range_step_def)
next
  case False
  let ?xs = "map fst (keyframe_points fc)"
  have ne: "?xs \<noteq> []" using False by simp
  have hd: "fst (hd (keyframe_points fc)) = Min (set ?xs)"
    using sorted_hd_Min [OF assms(2) ne] False by (simp add: hd_map)
  have last: "fst (last (keyframe_points fc)) = Max (set ?xs)"
    using sorted_last_Max [OF assms(2) ne] False by (simp add: last_map)
  show ?thesis
  proof (cases "A = {}")
    case True
    with False hd last show ?thesis
      by (simp add: range_step_def range_of_def py_min_def py_max_def)
  next
    case nonempty: False
    have "Min (A \<union> set ?xs) = min (Min A) (Min (set ?xs))"
      using assms(1) nonempty ne by (simp add: Min_Un)
    moreover have "Max (A \<union> set ?xs) = max (Max A) (Max (set ?xs))"
      using assms(1) nonempty ne by (simp add: Max_Un)
    ultimately show ?thesis
      using False nonempty hd last
      by (simp add: range_step_def range_of_def py_min_Fin py_max_Fin)
  qed
qed

lemma fold_range_step:
  assumes "finite A" "\<forall>fc\<in>set fcs. sorted (map fst (keyframe_points fc))"
  shows "fold range_step fcs (range_of A) = range_of (A \<union> keyframe_frames fcs)"
  using assms
proof (induction fcs arbitrary: A)
  case Nil
  then show ?case by (simp add: keyframe_frames_def)
next
  case (Cons fc fcs)
  have "fold range_step (fc # fcs) (range_of A)
        = fold range_step fcs (range_of (A \<union> fst ` set (keyframe_points fc)))"
    using Cons.prems by (simp add: range_step_range_of)
  also have "\<dots> = range_of ((A \<union> fst ` set (keyframe_points fc)) \<union> keyframe_frames fcs)"
    using Cons.prems by (intro Cons.IH) auto
  also have "(A \<union> fst ` set (keyframe_points fc)) \<union> keyframe_frames fcs = A \<union> keyframe_frames (fc # fcs)"
    by (auto simp: keyframe_frames_def)
  finally show ?case .
qed

lemma find_animation_range_range_of:
  assumes "\<forall>fc\<in>set (scanned_curves st objs). sorted (map fst (keyframe_points fc))"
  shows "find_animation_range st objs = range_of (keyframe_frames (scanned_curves st objs))"
  using fold_range_step [of "{}" "scanned_curves st objs"] assms
  by (simp add: find_animation_range_fold range_of_def)

text \<open>
  C5. When the keyframes of every scanned curve are in the order of their frames,
  \<open>find_animation_range\<close> returns the least and the greatest frame of all keyframes of
  all curves of the objects that have an action (and the two infinities it starts from
  when there is no keyframe at all).
\<close>

theorem find_animation_range_minmax:
  assumes "\<forall>fc\<in>set (scanned_curves st objs). sorted (map fst (keyframe_points fc))"
  shows "find_animation_range st objs =
           (if keyframe_frames (scanned_curves st objs) = {} then (PosInf, NegInf)
            else (Fin (Min (keyframe_frames (scanned_curves st objs))),
                  Fin (Max (keyframe_frames (scanned_curves st objs)))))"
  using find_animation_range_range_of [OF assms] by (simp add: range_of_def)

theorem find_animation_range_minmax_witness:
  "list_all (\<lambda>fc. sorted (map fst (keyframe_points fc)))
     (scanned_curves example_scene [example_rig, example_arm]) \<and>
   find_animation_range example_scene [example_rig, example_arm] = (Fin 1, Fin 10)"
  using find_animation_range_minmax [of example_scene "[example_rig, example_arm]"]
  by (simp add: list_all_iff scanned_curves_def keyframe_frames_def has_action_def action_fcurves_def
      example_scene_def example_rig_def example_arm_def example_action_def)

subsection \<open>Loops\<close>

lemma for_each_proj:
  assumes "\<And>x s. f (snd (body x s)) = f s"
  shows "f (snd (for_each body xs s)) = f s"
proof (induction xs arbitrary: s)
  case Nil
  show ?case by simp
next
  case (Cons x xs)
  obtain e s' where b: "body x s = (e, s')"
    by (cases "body x s")
  have s': "f s' = f s"
    using assms [of x s] b by simp
  show ?case
  proof (cases e)
    case None
    with b Cons.IH [of s'] s' show ?thesis by simp
  next
    case (Some err)
    with b s' show ?thesis by simp
  qed
qed

lemma first_pass_proj:
  assumes "\<And>obj_name prop_name ax s.
             f (snd (first_pass_axis root_name master obj_name prop_name ax s)) = f s"
  shows "f (snd (first_pass root_name master dict st)) = f st"
  unfolding first_pass_def
  by (intro for_each_proj) (simp add: split_beta assms for_each_proj)

lemma second_pass_proj:
  assumes "\<And>obj_name prop_name ax s.
             f (snd (second_pass_axis root_name obj_name prop_name ax s)) = f s"
    and "\<And>n s. f (ensure_animation_data n s) = f s"
  shows "f (snd (second_pass root_name dict st)) = f st"
proof -
  have prop_ok: "f (snd (second_pass_prop root_name obj_name pa s)) = f s" for obj_name pa s
    by (simp add: second_pass_prop_def assms(1) for_each_proj)
  have obj_ok: "f (snd (second_pass_object root_name entry s)) = f s" for entry s
    by (simp add: second_pass_object_def prop_ok assms(2) for_each_proj)
  show ?thesis
    unfolding second_pass_def by (rule for_each_proj) (rule obj_ok)
qed


lemma fold_proj:
  assumes "\<And>x s. f (g x s) = f s"
  shows "f (fold g xs s) = f s"
  by (induction xs arbitrary: s) (simp_all add: assms)

subsection \<open>What the steps leave alone\<close>

lemma editor_state_update_anim [simp]: "editor_state (update_anim n g st) = editor_state st"
  by (simp add: editor_state_def update_anim_def split: option.split)

lemma editor_state_ensure [simp]: "editor_state (ensure_animation_data n st) = editor_state st"
  by (simp add: editor_state_def ensure_animation_data_def animation_data_create_def)

lemma editor_state_new_fcurve [simp]: "editor_state (new_fcurve a path idx ks st) = editor_state st"
  by (simp add: editor_state_def new_fcurve_def)

lemma editor_state_set_custom [simp]: "editor_state (set_custom n key v st) = editor_state st"
  by (simp add: editor_state_def set_custom_def)

lemma editor_state_report [simp]: "editor_state (report l m st) = editor_state st"
  by (simp add: editor_state_def report_def)

lemma editor_state_driver_remove [simp]: "editor_state (driver_remove n path idx st) = editor_state st"
  by (simp add: driver_remove_def)

lemma editor_state_driver_add [simp]: "editor_state (driver_add n d st) = editor_state st"
  by (simp add: driver_add_def)

lemma editor_state_remove_original [simp]:
  "editor_state (remove_original root_name obj st) = editor_state st"
  by (simp add: remove_original_def)

lemma editor_state_first_pass_axis:
  "editor_state (snd (first_pass_axis root_name master obj_name prop_name ax st)) = editor_state st"
  by (simp add: first_pass_axis_def Let_def split: sum.split)

lemma editor_state_second_pass_axis:
  "editor_state (snd (second_pass_axis root_name obj_name prop_name ax st)) = editor_state st"
  by (simp add: second_pass_axis_def Let_def split: sum.split)

lemma editor_state_first_pass:
  "editor_state (snd (first_pass root_name master dict st)) = editor_state st"
  by (rule first_pass_proj) (rule editor_state_first_pass_axis)

lemma editor_state_second_pass:
  "editor_state (snd (second_pass root_name dict st)) = editor_state st"
  by (rule second_pass_proj) (simp_all add: editor_state_second_pass_axis)

lemma editor_state_actions_update [simp]: "editor_state (st\<lparr>actions := a\<rparr>) = editor_state st"
  by (simp add: editor_state_def)

lemma editor_state_frame_current:
  "editor_state s = editor_state t \<Longrightarrow> editor_state (s\<lparr>frame_current := frame_current t\<rparr>) = editor_state t"
  by (simp add: editor_state_def)

text \<open>The shape of a run of \<open>create_standalone_action\<close>.\<close>

lemma create_standalone_action_cases:
  fixes self root_object animated_objects st
  defines "master \<equiv> length (actions st)"
  defines "st1 \<equiv> st\<lparr>actions := actions st @
             [\<lparr>action_name = target_action_name self, use_fake_user = True, fcurves = []\<rparr>]\<rparr>"
  defines "dict \<equiv> collect_animation_data st1 animated_objects"
  defines "st3 \<equiv> update_anim (name root_object) (\<lambda>ad. ad\<lparr>action := Some master\<rparr>)
             (ensure_animation_data (name root_object) st1)"
  obtains
    (first_raises) e st4 where
      "first_pass (name root_object) master dict st3 = (Some e, st4)"
      "create_standalone_action self root_object animated_objects st = (Inl e, st4)"
  | (second_raises) e st4 st5 where
      "first_pass (name root_object) master dict st3 = (None, st4)"
      "second_pass (name root_object) dict st4 = (Some e, st5)"
      "create_standalone_action self root_object animated_objects st = (Inl e, st5)"
  | (finished) st4 st5 where
      "first_pass (name root_object) master dict st3 = (None, st4)"
      "second_pass (name root_object) dict st4 = (None, st5)"
      "create_standalone_action self root_object animated_objects st =
         (Inr FINISHED,
          (if \<not> keep_original_actions self
           then fold (remove_original (name root_object)) animated_objects st5
           else st5)\<lparr>frame_current := frame_current st\<rparr>)"
proof -
  obtain e4 st4 where fp: "first_pass (name root_object) master dict st3 = (e4, st4)"
    by (cases "first_pass (name root_object) master dict st3")
  obtain e5 st5 where sp: "second_pass (name root_object) dict st4 = (e5, st5)"
    by (cases "second_pass (name root_object) dict st4")
  show thesis
  proof (cases e4)
    case (Some e)
    with fp have "create_standalone_action self root_object animated_objects st = (Inl e, st4)"
      by (simp add: create_standalone_action_def Let_def master_def st1_def dict_def st3_def)
    with fp Some show thesis by (intro first_raises) simp_all
  next
    case None
    note e4 = None
    show thesis
    proof (cases e5)
      case (Some e)
      with fp sp e4 have "create_standalone_action self root_object animated_objects st = (Inl e, st5)"
        by (simp add: create_standalone_action_def Let_def master_def st1_def dict_def st3_def)
      with fp sp e4 Some show thesis by (intro second_raises) simp_all
    next
      case None
      with fp sp e4 have "create_standalone_action self root_object animated_objects st =
         (Inr FINISHED,
          (if \<not> keep_original_actions self
           then fold (remove_original (name root_object)) animated_objects st5
           else st5)\<lparr>frame_current := frame_current st\<rparr>)"
        by (simp add: create_standalone_action_def Let_def master_def st1_def dict_def st3_def)
      with fp sp e4 None show thesis by (intro finished) simp_all
    qed
  qed
qed

lemma create_standalone_action_not_cancelled:
  "fst (create_standalone_action self root_object animated_objects st) \<noteq> Inr CANCELLED"
  by (rule create_standalone_action_cases [of root_object st self animated_objects]) simp_all

lemma editor_state_first_pass':
  "first_pass root_name master dict st = (e, st') \<Longrightarrow> editor_state st' = editor_state st"
  using editor_state_first_pass [of root_name master dict st] by simp

lemma editor_state_second_pass':
  "second_pass root_name dict st = (e, st') \<Longrightarrow> editor_state st' = editor_state st"
  using editor_state_second_pass [of root_name dict st] by simp

lemma editor_state_fold_remove [simp]:
  "editor_state (fold (remove_original root_name) objs st) = editor_state st"
  by (rule fold_proj) simp

lemma editor_state_create_standalone_action:
  "editor_state (snd (create_standalone_action self root_object animated_objects st)) = editor_state st"
proof (rule create_standalone_action_cases [of root_object st self animated_objects], goal_cases)
  case (1 e st4)
  from 1(1) have "editor_state st4 = editor_state st"
    by (simp add: editor_state_first_pass')
  with 1(2) show ?case by simp
next
  case (2 e st4 st5)
  from 2(1) have "editor_state st4 = editor_state st"
    by (simp add: editor_state_first_pass')
  with 2(2) have "editor_state st5 = editor_state st"
    by (simp add: editor_state_second_pass')
  with 2(3) show ?case by simp
next
  case (3 st4 st5)
  from 3(1) have "editor_state st4 = editor_state st"
    by (simp add: editor_state_first_pass')
  with 3(2) have "editor_state st5 = editor_state st"
    by (simp add: editor_state_second_pass')
  with 3(3) show ?case
    by (simp add: editor_state_frame_current)
qed

subsection \<open>The range that \<open>execute\<close> sets\<close>

lemma range_step_shape:
  assumes "r = (PosInf, NegInf) \<or> (\<exists>a b. r = (Fin a, Fin b))"
  shows "(range_step fc r = (PosInf, NegInf) \<or> (\<exists>a b. range_step fc r = (Fin a, Fin b))) \<and>
         (range_step fc r = (PosInf, NegInf) \<longleftrightarrow> r = (PosInf, NegInf) \<and> keyframe_points fc = [])"
  using assms by (auto simp: range_step_def py_min_def py_max_def)

lemma fold_range_step_shape:
  assumes "r = (PosInf, NegInf) \<or> (\<exists>a b. r = (Fin a, Fin b))"
  shows "(fold range_step fcs r = (PosInf, NegInf) \<or> (\<exists>a b. fold range_step fcs r = (Fin a, Fin b))) \<and>
         (fold range_step fcs r = (PosInf, NegInf) \<longleftrightarrow> r = (PosInf, NegInf) \<and> keyframe_frames fcs = {})"
  using assms
proof (induction fcs arbitrary: r)
  case Nil
  then show ?case by (simp add: keyframe_frames_def)
next
  case (Cons fc fcs)
  from range_step_shape [OF Cons.prems, of fc] Cons.IH [of "range_step fc r"]
  show ?case
    by (simp add: keyframe_frames_def) blast
qed

lemma find_animation_range_shape:
  "(find_animation_range st objs = (PosInf, NegInf) \<and> keyframe_frames (scanned_curves st objs) = {}) \<or>
   (\<exists>a b. find_animation_range st objs = (Fin a, Fin b) \<and> keyframe_frames (scanned_curves st objs) \<noteq> {})"
  using fold_range_step_shape [of "(PosInf, NegInf)" "scanned_curves st objs"]
  by (auto simp: find_animation_range_fold)


lemma margin_range_cases:
  "(keyframe_frames (scanned_curves st objs) = {} \<and>
      margin_range self st (find_animation_range st objs)
        = (Fin (of_int (frame_start st)), Fin (of_int (frame_end st)))) \<or>
   (\<exists>a b. keyframe_frames (scanned_curves st objs) \<noteq> {} \<and>
      find_animation_range st objs = (Fin a, Fin b) \<and>
      margin_range self st (find_animation_range st objs)
        = (Fin (max 1 (a - of_int (frame_margin self))), Fin (b + of_int (frame_margin self))))"
proof -
  from find_animation_range_shape [of st objs] show ?thesis
  proof (elim disjE exE conjE)
    assume "find_animation_range st objs = (PosInf, NegInf)"
      and "keyframe_frames (scanned_curves st objs) = {}"
    then show ?thesis by (simp add: margin_range_def)
  next
    fix a b
    assume "find_animation_range st objs = (Fin a, Fin b)"
      and "keyframe_frames (scanned_curves st objs) \<noteq> {}"
    then show ?thesis
      by (simp add: margin_range_def xsub_def xadd_def py_max_Fin)
  qed
qed

lemma py_int_Fin: "py_int (Fin a) = Inr (if 0 \<le> a then \<lfloor>a\<rfloor> else \<lceil>a\<rceil>)"
  by (simp add: py_int_def)

subsection \<open>The shape of a run of \<open>execute\<close>\<close>

lemma has_action_active [simp]: "has_action (st\<lparr>active := a\<rparr>) = has_action st"
  by (rule ext) (simp add: has_action_def)

lemma action_fcurves_active [simp]: "action_fcurves (st\<lparr>active := a\<rparr>) = action_fcurves st"
  by (rule ext) (simp add: action_fcurves_def split: option.split)

lemma find_animation_range_active [simp]:
  "find_animation_range (st\<lparr>active := a\<rparr>) objs = find_animation_range st objs"
  by (simp add: find_animation_range_def cong: if_cong)

lemma margin_range_active [simp]: "margin_range self (st\<lparr>active := a\<rparr>) r = margin_range self st r"
  by (simp add: margin_range_def)

lemma execute_cases:
  fixes self st
  defines "st1 \<equiv> (if active st = None then st\<lparr>active := Some (hd (selected_objects st))\<rparr> else st)"
  obtains
    (no_selection) l m where
      "selected_objects st = []"
      "execute self st = (Inr CANCELLED, report l m st)"
  | (no_root) l m where
      "selected_objects st \<noteq> []"
      "find_root_object (selected_objects st) = None"
      "execute self st = (Inr CANCELLED, report l m st1)"
  | (no_animated) root_object l m where
      "selected_objects st \<noteq> []"
      "find_root_object (selected_objects st) = Some root_object"
      "filter (has_action st) (get_hierarchy_objects root_object) = []"
      "execute self st = (Inr CANCELLED, report l m st1)"
  | (run) root_object animated_objects r where
      "selected_objects st \<noteq> []"
      "find_root_object (selected_objects st) = Some root_object"
      "animated_objects = filter (has_action st) (get_hierarchy_objects root_object)"
      "animated_objects \<noteq> []"
      "margin_range self st (find_animation_range st animated_objects) = (Fin (fst r), Fin (snd r))"
      "execute self st =
         (case create_standalone_action self root_object animated_objects
                 (st1\<lparr>frame_start := (if 0 \<le> fst r then \<lfloor>fst r\<rfloor> else \<lceil>fst r\<rceil>),
                      frame_end := (if 0 \<le> snd r then \<lfloor>snd r\<rfloor> else \<lceil>snd r\<rceil>)\<rparr>) of
            (Inl e, st2) \<Rightarrow> (Inl e, st2)
          | (Inr result, st2) \<Rightarrow>
              (Inr result, restore_state (selected_objects st) (active st) (area_type st) st2))"
proof (cases "selected_objects st = []")
  case True
  then show thesis
    by (intro no_selection) (simp_all add: execute_def)
next
  case sel: False
  show thesis
  proof (cases "find_root_object (selected_objects st)")
    case None
    with sel show thesis
      by (intro no_root) (simp_all add: execute_def Let_def st1_def)
  next
    case (Some root_object)
    show thesis
    proof (cases "filter (has_action st) (get_hierarchy_objects root_object) = []")
      case True
      have "filter (has_action st1) (get_hierarchy_objects root_object) = []"
        using True by (simp add: st1_def)
      with sel Some True show thesis
        by (intro no_animated) (simp_all add: execute_def Let_def st1_def)
    next
      case False
      let ?an = "filter (has_action st) (get_hierarchy_objects root_object)"
      obtain a b where r: "margin_range self st (find_animation_range st ?an) = (Fin a, Fin b)"
        using margin_range_cases [of st ?an self] by blast
      have an1: "filter (has_action st1) (get_hierarchy_objects root_object) = ?an"
        by (simp add: st1_def)
      have r1: "margin_range self st1 (find_animation_range st1 ?an) = (Fin a, Fin b)"
        using r by (simp add: st1_def)
      have "execute self st =
         (case create_standalone_action self root_object ?an
                 (st1\<lparr>frame_start := (if 0 \<le> a then \<lfloor>a\<rfloor> else \<lceil>a\<rceil>),
                      frame_end := (if 0 \<le> b then \<lfloor>b\<rfloor> else \<lceil>b\<rceil>)\<rparr>) of
            (Inl e, st2) \<Rightarrow> (Inl e, st2)
          | (Inr result, st2) \<Rightarrow>
              (Inr result, restore_state (selected_objects st) (active st) (area_type st) st2))"
        using sel Some False
        by (simp add: execute_def Let_def an1 r1 py_int_Fin flip: st1_def)
      with sel Some False r show thesis
        by (intro run [of root_object ?an "(a, b)"]) simp_all
    qed
  qed
qed

subsection \<open>Restoring the selection\<close>

lemma fold_select_rest:
  "(data_objects s', active s', area_type s', frame_current s', frame_start s', frame_end s',
    actions s', objects s') =
   (data_objects s, active s, area_type s, frame_current s, frame_start s, frame_end s,
    actions s, objects s)"
  if "s' = fold (\<lambda>obj s. if name obj \<in> data_objects s then select_set obj s else s) sel s"
  unfolding that
  by (rule fold_proj) (simp add: select_set_def)

lemma fold_select_set:
  "set (selected_objects
          (fold (\<lambda>obj s. if name obj \<in> data_objects s then select_set obj s else s) sel s))
   = set (selected_objects s) \<union> {obj \<in> set sel. name obj \<in> data_objects s}"
proof (induction sel arbitrary: s)
  case Nil
  show ?case by simp
next
  case (Cons x sel)
  let ?s = "if name x \<in> data_objects s then select_set x s else s"
  have d: "data_objects ?s = data_objects s"
    by (simp add: select_set_def)
  have "set (selected_objects ?s)
        = set (selected_objects s) \<union> (if name x \<in> data_objects s then {x} else {})"
    by (auto simp: select_set_def)
  with Cons.IH [of ?s] d show ?case
    by auto
qed

lemma restore_state_selected:
  "set (selected_objects (restore_state sel act area s)) = {obj \<in> set sel. name obj \<in> data_objects s}"
  using fold_select_set [of sel "s\<lparr>selected_objects := []\<rparr>"]
  by (simp add: restore_state_def Let_def split: option.split)

lemma restore_state_rest:
  "data_objects (restore_state sel act area s) = data_objects s"
  "area_type (restore_state sel act area s) = area"
  "frame_current (restore_state sel act area s) = frame_current s"
  "frame_start (restore_state sel act area s) = frame_start s"
  "frame_end (restore_state sel act area s) = frame_end s"
  "actions (restore_state sel act area s) = actions s"
  "objects (restore_state sel act area s) = objects s"
  using fold_select_rest [OF refl, of sel "s\<lparr>selected_objects := []\<rparr>"]
  by (simp_all add: restore_state_def Let_def split: option.split)

lemma restore_state_active:
  "active (restore_state sel act area s) =
     (case act of
        None \<Rightarrow> active s
      | Some a \<Rightarrow> if name a \<in> data_objects s then Some a else active s)"
  using fold_select_rest [OF refl, of sel "s\<lparr>selected_objects := []\<rparr>"]
  by (simp add: restore_state_def Let_def split: option.split)


lemma editor_state_fields:
  assumes "editor_state s = editor_state t"
  shows "selected_objects s = selected_objects t" "active s = active t"
    "area_type s = area_type t" "frame_start s = frame_start t" "frame_end s = frame_end t"
    "frame_current s = frame_current t" "data_objects s = data_objects t"
    "driver_add_fails s = driver_add_fails t"
  using assms by (simp_all add: editor_state_def)

text \<open>
  C3. \<open>execute\<close> returns CANCELLED exactly when nothing is selected, no root is found, or
  no object of the root's hierarchy has animation data with an action; and a cancelled
  run leaves \<open>bpy.data.actions\<close> as it was, so no master action is created.
\<close>

theorem execute_cancelled_iff:
  "(fst (execute self st) = Inr CANCELLED \<longleftrightarrow>
      selected_objects st = [] \<or>
      find_root_object (selected_objects st) = None \<or>
      (\<exists>root_object. find_root_object (selected_objects st) = Some root_object \<and>
         (\<forall>obj\<in>set (get_hierarchy_objects root_object). \<not> has_action st obj))) \<and>
   (fst (execute self st) = Inr CANCELLED \<longrightarrow> actions (snd (execute self st)) = actions st)"
proof (rule execute_cases [of st self], goal_cases)
  case (1 l m)
  then show ?case by (simp add: report_def)
next
  case (2 l m)
  then show ?case by (simp add: report_def)
next
  case (3 root_object l m)
  then show ?case by (auto simp: report_def filter_empty_conv)
next
  case (4 root_object animated_objects r)
  let ?st2 = "(if active st = None then st\<lparr>active := Some (hd (selected_objects st))\<rparr> else st)
      \<lparr>frame_start := if 0 \<le> fst r then \<lfloor>fst r\<rfloor> else \<lceil>fst r\<rceil>,
        frame_end := if 0 \<le> snd r then \<lfloor>snd r\<rfloor> else \<lceil>snd r\<rceil>\<rparr>"
  obtain res st3 where csa:
    "create_standalone_action self root_object animated_objects ?st2 = (res, st3)"
    by (cases "create_standalone_action self root_object animated_objects ?st2")
  have "res \<noteq> Inr CANCELLED"
    using create_standalone_action_not_cancelled [of self root_object animated_objects ?st2] csa
    by simp
  then have "fst (execute self st) \<noteq> Inr CANCELLED"
    using 4(6) csa by (cases res) auto
  moreover have "\<not> (\<forall>obj\<in>set (get_hierarchy_objects root_object). \<not> has_action st obj)"
    using 4(3,4) by (simp add: filter_empty_conv)
  ultimately show ?case
    using 4(1,2) by simp
qed


text \<open>
  C10, amended. On every run that is not cancelled: an object that still exists is
  selected afterwards exactly when it was selected before (and nothing else becomes
  selected), the area type and the current frame have their old values, and an object
  that was active before is active afterwards. When no object was active before, the
  first selected object has been made active and stays active: the active object is not
  put back to none.
\<close>

theorem execute_editor_state:
  assumes "fst (execute self st) \<noteq> Inr CANCELLED"
  shows "(\<forall>obj. name obj \<in> data_objects (snd (execute self st)) \<longrightarrow>
            (obj \<in> set (selected_objects (snd (execute self st))) \<longleftrightarrow>
             obj \<in> set (selected_objects st))) \<and>
         set (selected_objects (snd (execute self st))) \<subseteq> set (selected_objects st) \<and>
         (\<forall>a. active st = Some a \<longrightarrow> active (snd (execute self st)) = Some a) \<and>
         (active st = None \<longrightarrow>
            active (snd (execute self st)) = Some (hd (selected_objects st))) \<and>
         area_type (snd (execute self st)) = area_type st \<and>
         frame_current (snd (execute self st)) = frame_current st"
proof (rule execute_cases [of st self], goal_cases)
  case (1 l m)
  with assms show ?case by simp
next
  case (2 l m)
  with assms show ?case by simp
next
  case (3 root_object l m)
  with assms show ?case by simp
next
  case (4 root_object animated_objects r)
  let ?st2 = "(if active st = None then st\<lparr>active := Some (hd (selected_objects st))\<rparr> else st)
      \<lparr>frame_start := if 0 \<le> fst r then \<lfloor>fst r\<rfloor> else \<lceil>fst r\<rceil>,
        frame_end := if 0 \<le> snd r then \<lfloor>snd r\<rfloor> else \<lceil>snd r\<rceil>\<rparr>"
  obtain res st3 where csa:
    "create_standalone_action self root_object animated_objects ?st2 = (res, st3)"
    by (cases "create_standalone_action self root_object animated_objects ?st2")
  have "editor_state st3 = editor_state ?st2"
    using editor_state_create_standalone_action [of self root_object animated_objects ?st2] csa
    by simp
  note f = editor_state_fields [OF this]
  have sel: "selected_objects st3 = selected_objects st"
    and act: "\<And>a. active st = Some a \<Longrightarrow> active st3 = Some a"
    and none: "active st = None \<Longrightarrow> active st3 = Some (hd (selected_objects st))"
    and area: "area_type st3 = area_type st"
    and cur: "frame_current st3 = frame_current st"
    using f by (simp_all split: if_splits)
  show ?case
  proof (cases res)
    case (Inl e)
    with 4(6) csa have "execute self st = (Inl e, st3)" by simp
    with sel act none area cur show ?thesis by simp
  next
    case (Inr result)
    with 4(6) csa have "execute self st =
        (Inr result, restore_state (selected_objects st) (active st) (area_type st) st3)"
      by simp
    with act none cur show ?thesis
      by (auto simp: restore_state_selected restore_state_rest restore_state_active)
  qed
qed

text \<open>
  C8. On a run that is not cancelled: when the curves of the animated objects have no
  keyframe, the scene keeps its frame range; otherwise the range found is widened by
  the margin, and the start frame set is at least 1 whatever the margin is.
\<close>

theorem execute_frame_range:
  assumes "fst (execute self st) \<noteq> Inr CANCELLED"
  shows "\<exists>root_object.
           find_root_object (selected_objects st) = Some root_object \<and>
           (keyframe_frames (scanned_curves st
               (filter (has_action st) (get_hierarchy_objects root_object))) = {} \<longrightarrow>
              frame_start (snd (execute self st)) = frame_start st \<and>
              frame_end (snd (execute self st)) = frame_end st) \<and>
           (keyframe_frames (scanned_curves st
               (filter (has_action st) (get_hierarchy_objects root_object))) \<noteq> {} \<longrightarrow>
              (\<exists>a b. find_animation_range st
                         (filter (has_action st) (get_hierarchy_objects root_object))
                       = (Fin a, Fin b) \<and>
                 frame_start (snd (execute self st))
                   = \<lfloor>max 1 (a - of_int (frame_margin self))\<rfloor> \<and>
                 frame_end (snd (execute self st))
                   = (if 0 \<le> b + of_int (frame_margin self)
                      then \<lfloor>b + of_int (frame_margin self)\<rfloor>
                      else \<lceil>b + of_int (frame_margin self)\<rceil>)) \<and>
              1 \<le> frame_start (snd (execute self st)))"
proof (rule execute_cases [of st self], goal_cases)
  case (1 l m)
  with assms show ?case by simp
next
  case (2 l m)
  with assms show ?case by simp
next
  case (3 root_object l m)
  with assms show ?case by simp
next
  case (4 root_object animated_objects r)
  let ?fs = "if 0 \<le> fst r then \<lfloor>fst r\<rfloor> else \<lceil>fst r\<rceil>"
  let ?fe = "if 0 \<le> snd r then \<lfloor>snd r\<rfloor> else \<lceil>snd r\<rceil>"
  let ?st2 = "(if active st = None then st\<lparr>active := Some (hd (selected_objects st))\<rparr> else st)
      \<lparr>frame_start := ?fs, frame_end := ?fe\<rparr>"
  obtain res st3 where csa:
    "create_standalone_action self root_object animated_objects ?st2 = (res, st3)"
    by (cases "create_standalone_action self root_object animated_objects ?st2")
  have "editor_state st3 = editor_state ?st2"
    using editor_state_create_standalone_action [of self root_object animated_objects ?st2] csa
    by simp
  note f = editor_state_fields [OF this]
  have "frame_start (snd (execute self st)) = frame_start st3 \<and>
        frame_end (snd (execute self st)) = frame_end st3"
    using 4(6) csa by (cases res) (simp_all add: restore_state_rest)
  with f have set: "frame_start (snd (execute self st)) = ?fs"
    "frame_end (snd (execute self st)) = ?fe"
    by simp_all
  from margin_range_cases [of st animated_objects self]
  have "(keyframe_frames (scanned_curves st animated_objects) = {} \<longrightarrow>
           ?fs = frame_start st \<and> ?fe = frame_end st) \<and>
        (keyframe_frames (scanned_curves st animated_objects) \<noteq> {} \<longrightarrow>
           (\<exists>a b. find_animation_range st animated_objects = (Fin a, Fin b) \<and>
              ?fs = \<lfloor>max 1 (a - of_int (frame_margin self))\<rfloor> \<and>
              ?fe = (if 0 \<le> b + of_int (frame_margin self)
                     then \<lfloor>b + of_int (frame_margin self)\<rfloor>
                     else \<lceil>b + of_int (frame_margin self)\<rceil>)) \<and>
           1 \<le> ?fs)"
  proof (elim disjE exE conjE)
    assume e: "keyframe_frames (scanned_curves st animated_objects) = {}"
      and "margin_range self st (find_animation_range st animated_objects)
           = (Fin (of_int (frame_start st)), Fin (of_int (frame_end st)))"
    with 4(5) have "fst r = of_int (frame_start st)" "snd r = of_int (frame_end st)"
      by simp_all
    with e show ?thesis by simp
  next
    fix a b
    assume ne: "keyframe_frames (scanned_curves st animated_objects) \<noteq> {}"
      and far: "find_animation_range st animated_objects = (Fin a, Fin b)"
      and "margin_range self st (find_animation_range st animated_objects)
           = (Fin (max 1 (a - of_int (frame_margin self))), Fin (b + of_int (frame_margin self)))"
    with 4(5) have r: "fst r = max 1 (a - of_int (frame_margin self))"
      "snd r = b + of_int (frame_margin self)"
      by simp_all
    have "1 \<le> fst r" using r(1) by simp
    then have "0 \<le> fst r" "1 \<le> \<lfloor>fst r\<rfloor>" by linarith+
    with ne far r show ?thesis by simp
  qed
  with set 4(2,3) show ?case by simp
qed


subsection \<open>The example scene\<close>

lemmas example_defs =
  example_scene_def example_rig_def example_arm_def example_action_def example_operator_def

lemmas run_defs =
  execute_def find_root_object_def named_root_def lower_def lower_char_def
  has_action_def find_animation_range_def action_fcurves_def range_step_def py_min_def
  py_max_def margin_range_def xsub_def xadd_def py_int_def
  create_standalone_action_def collect_animation_data_def collect_object_def
  collect_fcurve_def ensure_animation_data_def animation_data_create_def update_anim_def
  first_pass_def first_pass_axis_def transform_props_def prop_key_def component_def
  clean_obj_name_def replace_char_def set_custom_def new_fcurve_def insert_keyframes_def
  custom_path_def second_pass_def second_pass_object_def second_pass_prop_def
  second_pass_axis_def driver_remove_def driver_add_def value_driver_def restore_state_def
  select_set_def report_def empty_anim_data_def remove_original_def

lemma example_root: "find_root_object (selected_objects example_scene) = Some example_rig"
  by (simp add: example_defs find_root_object_def named_root_def lower_def lower_char_def)

lemma example_animated:
  "filter (has_action example_scene) (get_hierarchy_objects example_rig) = [example_arm]"
  by (simp add: example_defs has_action_def)

lemma example_range: "find_animation_range example_scene [example_arm] = (Fin 1, Fin 10)"
  by (simp add: example_defs find_animation_range_def has_action_def action_fcurves_def
      range_step_def py_min_def py_max_def)

lemma example_frames:
  "keyframe_frames (scanned_curves example_scene [example_arm]) = {1, 10, 3}"
  by (auto simp: example_defs keyframe_frames_def scanned_curves_def has_action_def
      action_fcurves_def)

lemma example_run: "fst (execute example_operator example_scene) = Inr FINISHED"
  by (simp add: example_defs run_defs Let_def)

theorem execute_cancelled_iff_witness:
  "fst (execute example_operator (example_scene\<lparr>selected_objects := []\<rparr>)) = Inr CANCELLED \<and>
   actions (snd (execute example_operator (example_scene\<lparr>selected_objects := []\<rparr>)))
     = [example_action] \<and>
   fst (execute example_operator example_scene) \<noteq> Inr CANCELLED"
  using execute_cancelled_iff [of example_operator "example_scene\<lparr>selected_objects := []\<rparr>"]
    execute_cancelled_iff [of example_operator example_scene] example_root example_animated
  by (auto simp: example_scene_def filter_empty_conv)

text \<open>
  C10, as stated, fails for the active object: in the example nothing is active before
  the run, and after the finished run the rig is active.
\<close>

theorem execute_active_not_restored:
  "active example_scene = None \<and>
   fst (execute example_operator example_scene) = Inr FINISHED \<and>
   active (snd (execute example_operator example_scene)) = Some example_rig"
  by (simp add: example_defs run_defs Let_def)

lemma example_run_active:
  "fst (execute example_operator (example_scene\<lparr>active := Some example_arm\<rparr>)) = Inr FINISHED"
  by (simp add: example_defs run_defs Let_def)

theorem execute_editor_state_witness:
  "fst (execute example_operator example_scene) \<noteq> Inr CANCELLED \<and>
   example_rig \<in> set (selected_objects (snd (execute example_operator example_scene))) \<and>
   area_type (snd (execute example_operator example_scene)) = ''DOPESHEET_EDITOR'' \<and>
   frame_current (snd (execute example_operator example_scene)) = 7 \<and>
   active (snd (execute example_operator example_scene)) = Some example_rig \<and>
   active (snd (execute example_operator (example_scene\<lparr>active := Some example_arm\<rparr>)))
     = Some example_arm"
proof -
  have h: "fst (execute example_operator example_scene) \<noteq> Inr CANCELLED"
    by (simp add: example_run)
  have h': "fst (execute example_operator (example_scene\<lparr>active := Some example_arm\<rparr>))
      \<noteq> Inr CANCELLED"
    by (simp add: example_run_active)
  have d: "data_objects (snd (execute example_operator example_scene)) = {''Rig'', ''Arm.L''}"
    by (simp add: example_defs run_defs Let_def)
  from execute_editor_state [OF h] execute_editor_state [OF h'] h d show ?thesis
    by (auto simp: example_scene_def example_rig_def)
qed

theorem execute_frame_range_witness:
  "fst (execute example_operator example_scene) \<noteq> Inr CANCELLED \<and>
   frame_start (snd (execute example_operator example_scene)) = 1 \<and>
   frame_end (snd (execute example_operator example_scene)) = 10"
proof -
  have h: "fst (execute example_operator example_scene) \<noteq> Inr CANCELLED"
    by (simp add: example_run)
  from execute_frame_range [OF h] example_root example_animated example_range example_frames h
  show ?thesis
    by (auto simp: example_operator_def)
qed

subsection \<open>Actions and NLA tracks of the objects\<close>

lemma has_action_ref: "has_action st obj \<longleftrightarrow> action_ref st (name obj) \<noteq> None"
  by (simp add: has_action_def action_ref_def split: option.split)

lemma refs_update_anim:
  "action_ref (update_anim n g st) m =
     (if m = n then (case animation_data (objects st n) of None \<Rightarrow> None | Some ad \<Rightarrow> action (g ad))
      else action_ref st m)"
  "nla_of (update_anim n g st) m =
     (if m = n then (case animation_data (objects st n) of None \<Rightarrow> [] | Some ad \<Rightarrow> nla_tracks (g ad))
      else nla_of st m)"
  by (simp_all add: action_ref_def nla_of_def update_anim_def split: option.split)

lemma refs_ensure [simp]:
  "action_ref (ensure_animation_data n st) = action_ref st"
  "nla_of (ensure_animation_data n st) = nla_of st"
  by (rule ext; simp add: action_ref_def nla_of_def ensure_animation_data_def
      animation_data_create_def empty_anim_data_def)+

lemma refs_new_fcurve [simp]:
  "action_ref (new_fcurve a path idx ks st) = action_ref st"
  "nla_of (new_fcurve a path idx ks st) = nla_of st"
  by (rule ext; simp add: action_ref_def nla_of_def new_fcurve_def)+

lemma refs_set_custom [simp]:
  "action_ref (set_custom n key v st) = action_ref st"
  "nla_of (set_custom n key v st) = nla_of st"
  by (rule ext; simp add: action_ref_def nla_of_def set_custom_def)+

lemma refs_report [simp]:
  "action_ref (report l m st) = action_ref st"
  "nla_of (report l m st) = nla_of st"
  by (rule ext; simp add: action_ref_def nla_of_def report_def)+

lemma refs_drivers_update:
  "action_ref (update_anim n (\<lambda>ad. ad\<lparr>drivers := g ad\<rparr>) st) = action_ref st"
  "nla_of (update_anim n (\<lambda>ad. ad\<lparr>drivers := g ad\<rparr>) st) = nla_of st"
proof -
  show "action_ref (update_anim n (\<lambda>ad. ad\<lparr>drivers := g ad\<rparr>) st) = action_ref st"
  proof
    fix m
    show "action_ref (update_anim n (\<lambda>ad. ad\<lparr>drivers := g ad\<rparr>) st) m = action_ref st m"
      unfolding refs_update_anim by (simp add: action_ref_def split: option.split)
  qed
  show "nla_of (update_anim n (\<lambda>ad. ad\<lparr>drivers := g ad\<rparr>) st) = nla_of st"
  proof
    fix m
    show "nla_of (update_anim n (\<lambda>ad. ad\<lparr>drivers := g ad\<rparr>) st) m = nla_of st m"
      unfolding refs_update_anim by (simp add: nla_of_def split: option.split)
  qed
qed

lemma refs_driver_remove [simp]:
  "action_ref (driver_remove n path idx st) = action_ref st"
  "nla_of (driver_remove n path idx st) = nla_of st"
  by (simp_all add: driver_remove_def refs_drivers_update)

lemma refs_driver_add [simp]:
  "action_ref (driver_add n d st) = action_ref st"
  "nla_of (driver_add n d st) = nla_of st"
  by (simp_all add: driver_add_def refs_drivers_update)

lemma refs_first_pass:
  assumes "first_pass root_name master dict st = (e, st')"
  shows "action_ref st' = action_ref st" "nla_of st' = nla_of st"
proof -
  have "(action_ref (snd (first_pass root_name master dict st)),
         nla_of (snd (first_pass root_name master dict st))) = (action_ref st, nla_of st)"
    by (rule first_pass_proj [where f = "\<lambda>s. (action_ref s, nla_of s)"])
       (simp add: first_pass_axis_def Let_def split: sum.split)
  with assms show "action_ref st' = action_ref st" "nla_of st' = nla_of st"
    by simp_all
qed

lemma refs_second_pass:
  assumes "second_pass root_name dict st = (e, st')"
  shows "action_ref st' = action_ref st" "nla_of st' = nla_of st"
proof -
  have "(action_ref (snd (second_pass root_name dict st)),
         nla_of (snd (second_pass root_name dict st))) = (action_ref st, nla_of st)"
    by (rule second_pass_proj [where f = "\<lambda>s. (action_ref s, nla_of s)"])
       (simp_all add: second_pass_axis_def Let_def split: sum.split)
  with assms show "action_ref st' = action_ref st" "nla_of st' = nla_of st"
    by simp_all
qed

lemma refs_remove_original:
  "action_ref (remove_original root_name x s) n =
     (if n = name x \<and> n \<noteq> root_name then None else action_ref s n)"
  "nla_of (remove_original root_name x s) n =
     (if n = name x \<and> n \<noteq> root_name \<and> action_ref s n \<noteq> None then [] else nla_of s n)"
  by (auto simp: remove_original_def has_action_ref refs_update_anim action_ref_def nla_of_def
      update_anim_def split: option.split)

lemma refs_fold_remove:
  "action_ref (fold (remove_original root_name) objs s) n =
     (if n \<noteq> root_name \<and> n \<in> name ` set objs then None else action_ref s n)"
  "nla_of (fold (remove_original root_name) objs s) n =
     (if n \<noteq> root_name \<and> n \<in> name ` set objs \<and> action_ref s n \<noteq> None then []
      else nla_of s n)"
proof (induction objs arbitrary: s)
  case Nil
  { case 1 show ?case by simp }
  { case 2 show ?case by simp }
next
  case (Cons x objs)
  { case 1 show ?case by (simp add: Cons.IH refs_remove_original) }
  { case 2 show ?case by (auto simp: Cons.IH refs_remove_original) }
qed


lemma nla_of_action_update:
  "nla_of (update_anim n (\<lambda>ad. ad\<lparr>action := x\<rparr>) st) = nla_of st"
proof
  fix m
  show "nla_of (update_anim n (\<lambda>ad. ad\<lparr>action := x\<rparr>) st) m = nla_of st m"
    unfolding refs_update_anim by (simp add: nla_of_def split: option.split)
qed

lemma refs_objects_eq:
  assumes "objects s = objects t"
  shows "action_ref s = action_ref t" "nla_of s = nla_of t"
  using assms by (auto simp: action_ref_def nla_of_def)

lemma ensure_animation_data_Some:
  "animation_data (objects (ensure_animation_data n st) n) \<noteq> None"
  by (simp add: ensure_animation_data_def animation_data_create_def)

subsection \<open>The store of actions\<close>

lemma actions_update_anim [simp]: "actions (update_anim n g st) = actions st"
  by (simp add: update_anim_def split: option.split)

lemma actions_ensure [simp]: "actions (ensure_animation_data n st) = actions st"
  by (simp add: ensure_animation_data_def animation_data_create_def)

lemma actions_set_custom [simp]: "actions (set_custom n key v st) = actions st"
  by (simp add: set_custom_def)

lemma actions_report [simp]: "actions (report l m st) = actions st"
  by (simp add: report_def)

lemma actions_driver_remove [simp]: "actions (driver_remove n path idx st) = actions st"
  by (simp add: driver_remove_def)

lemma actions_driver_add [simp]: "actions (driver_add n d st) = actions st"
  by (simp add: driver_add_def)

lemma actions_remove_original [simp]: "actions (remove_original root_name obj st) = actions st"
  by (simp add: remove_original_def)

lemma actions_fold_remove [simp]:
  "actions (fold (remove_original root_name) objs st) = actions st"
  by (rule fold_proj) simp

lemma actions_second_pass:
  assumes "second_pass root_name dict st = (e, st')"
  shows "actions st' = actions st"
proof -
  have "actions (snd (second_pass root_name dict st)) = actions st"
    by (rule second_pass_proj) (simp_all add: second_pass_axis_def Let_def split: sum.split)
  with assms show ?thesis by simp
qed

lemma action_names_new_fcurve [simp]:
  "map action_name (actions (new_fcurve a path idx ks st)) = map action_name (actions st)"
  by (cases "a < length (actions st)") (simp_all add: new_fcurve_def map_update list_update_same_conv list_update_beyond)

lemma action_names_first_pass:
  assumes "first_pass root_name master dict st = (e, st')"
  shows "map action_name (actions st') = map action_name (actions st)"
proof -
  have "map action_name (actions (snd (first_pass root_name master dict st)))
        = map action_name (actions st)"
    by (rule first_pass_proj) (simp add: first_pass_axis_def Let_def split: sum.split)
  with assms show ?thesis by simp
qed

text \<open>What a run of \<open>create_standalone_action\<close> does to the actions of the objects.\<close>

lemma create_standalone_action_refs:
  fixes self root_object animated_objects st
  defines "res \<equiv> fst (create_standalone_action self root_object animated_objects st)"
  defines "st' \<equiv> snd (create_standalone_action self root_object animated_objects st)"
  shows "action_ref st' (name root_object) = Some (length (actions st))"
    and "map action_name (actions st') = map action_name (actions st) @ [target_action_name self]"
    and "n \<noteq> name root_object \<Longrightarrow> keep_original_actions self \<or> res \<noteq> Inr FINISHED \<Longrightarrow>
           action_ref st' n = action_ref st n \<and> nla_of st' n = nla_of st n"
    and "\<not> keep_original_actions self \<Longrightarrow> res = Inr FINISHED \<Longrightarrow> obj \<in> set animated_objects \<Longrightarrow>
           name obj \<noteq> name root_object \<Longrightarrow>
           action_ref st' (name obj) = None \<and>
           (action_ref st (name obj) \<noteq> None \<longrightarrow> nla_of st' (name obj) = [])"
proof -
  let ?st1 = "st\<lparr>actions := actions st @
      [\<lparr>action_name = target_action_name self, use_fake_user = True, fcurves = []\<rparr>]\<rparr>"
  let ?st3 = "update_anim (name root_object) (\<lambda>ad. ad\<lparr>action := Some (length (actions st))\<rparr>)
      (ensure_animation_data (name root_object) ?st1)"
  have r1: "action_ref ?st1 = action_ref st" "nla_of ?st1 = nla_of st"
    by (simp_all add: refs_objects_eq [of ?st1 st])
  have a3: "action_ref ?st3 = (action_ref st)(name root_object := Some (length (actions st)))"
    using ensure_animation_data_Some [of "name root_object" ?st1]
    by (auto simp: refs_update_anim r1 fun_eq_iff split: option.split)
  have n3: "nla_of ?st3 = nla_of st"
    by (simp add: nla_of_action_update r1)
  have m3: "map action_name (actions ?st3) = map action_name (actions st) @ [target_action_name self]"
    by simp
  have "action_ref st' (name root_object) = Some (length (actions st)) \<and>
    map action_name (actions st') = map action_name (actions st) @ [target_action_name self] \<and>
    (n \<noteq> name root_object \<longrightarrow> keep_original_actions self \<or> res \<noteq> Inr FINISHED \<longrightarrow>
           action_ref st' n = action_ref st n \<and> nla_of st' n = nla_of st n) \<and>
    (\<not> keep_original_actions self \<longrightarrow> res = Inr FINISHED \<longrightarrow> obj \<in> set animated_objects \<longrightarrow>
           name obj \<noteq> name root_object \<longrightarrow>
           action_ref st' (name obj) = None \<and>
           (action_ref st (name obj) \<noteq> None \<longrightarrow> nla_of st' (name obj) = []))"
  proof (rule create_standalone_action_cases [of root_object st self animated_objects], goal_cases)
    case (1 e st4)
    from refs_first_pass [OF 1(1)] action_names_first_pass [OF 1(1)] a3 n3 m3 1(2)
    show ?case by (simp add: res_def st'_def)
  next
    case (2 e st4 st5)
    from refs_first_pass [OF 2(1)] action_names_first_pass [OF 2(1)]
      refs_second_pass [OF 2(2)] actions_second_pass [OF 2(2)] a3 n3 m3 2(3)
    show ?case by (simp add: res_def st'_def)
  next
    case (3 st4 st5)
    let ?st6 = "if \<not> keep_original_actions self
      then fold (remove_original (name root_object)) animated_objects st5 else st5"
    have 5: "action_ref st5 = (action_ref st)(name root_object := Some (length (actions st)))"
      "nla_of st5 = nla_of st"
      "map action_name (actions st5) = map action_name (actions st) @ [target_action_name self]"
      using refs_first_pass [OF 3(1)] action_names_first_pass [OF 3(1)]
        refs_second_pass [OF 3(2)] actions_second_pass [OF 3(2)] a3 n3 m3
      by simp_all
    have st': "st' = ?st6\<lparr>frame_current := frame_current st\<rparr>" and res: "res = Inr FINISHED"
      using 3(3) by (simp_all add: res_def st'_def)
    have eq: "action_ref st' = action_ref ?st6" "nla_of st' = nla_of ?st6"
      "actions st' = actions ?st6"
      unfolding st' by (simp_all add: refs_objects_eq [of "?st6\<lparr>frame_current := frame_current st\<rparr>" ?st6])
    show ?case
      unfolding eq using 5 res
      by (auto simp: refs_fold_remove)
  qed
  then show "action_ref st' (name root_object) = Some (length (actions st))"
    and "map action_name (actions st') = map action_name (actions st) @ [target_action_name self]"
    and "n \<noteq> name root_object \<Longrightarrow> keep_original_actions self \<or> res \<noteq> Inr FINISHED \<Longrightarrow>
           action_ref st' n = action_ref st n \<and> nla_of st' n = nla_of st n"
    and "\<not> keep_original_actions self \<Longrightarrow> res = Inr FINISHED \<Longrightarrow> obj \<in> set animated_objects \<Longrightarrow>
           name obj \<noteq> name root_object \<Longrightarrow>
           action_ref st' (name obj) = None \<and>
           (action_ref st (name obj) \<noteq> None \<longrightarrow> nla_of st' (name obj) = [])"
    by blast+
qed


text \<open>
  C9. With \<open>keep_original_actions\<close> set, the action and the NLA tracks of every object
  other than the root are what they were before the operation. On every run that is not
  cancelled, whatever the option, the root's action is the new master action, which
  carries the target name. Without the option, a finished run leaves every animated
  object of the hierarchy other than the root with no action and no NLA track.
\<close>

theorem keep_original_actions_effect:
  assumes "find_root_object (selected_objects st) = Some root_object"
  shows "(keep_original_actions self \<longrightarrow>
            (\<forall>n. n \<noteq> name root_object \<longrightarrow>
               action_ref (snd (execute self st)) n = action_ref st n \<and>
               nla_of (snd (execute self st)) n = nla_of st n)) \<and>
         (fst (execute self st) \<noteq> Inr CANCELLED \<longrightarrow>
            action_ref (snd (execute self st)) (name root_object) = Some (length (actions st)) \<and>
            map action_name (actions (snd (execute self st)))
              = map action_name (actions st) @ [target_action_name self]) \<and>
         (\<not> keep_original_actions self \<and> fst (execute self st) = Inr FINISHED \<longrightarrow>
            (\<forall>obj\<in>set (get_hierarchy_objects root_object).
               name obj \<noteq> name root_object \<and> has_action st obj \<longrightarrow>
               action_ref (snd (execute self st)) (name obj) = None \<and>
               nla_of (snd (execute self st)) (name obj) = []))"
proof (rule execute_cases [of st self], goal_cases)
  case (1 l m)
  then show ?case by simp
next
  case (2 l m)
  with assms show ?case by simp
next
  case (3 r l m)
  let ?st1 = "if active st = None then st\<lparr>active := Some (hd (selected_objects st))\<rparr> else st"
  have "action_ref (report l m ?st1) = action_ref st" "nla_of (report l m ?st1) = nla_of st"
    by (simp_all add: refs_objects_eq [of ?st1 st])
  with 3 show ?case by simp
next
  case (4 r animated_objects rng)
  from 4(2) assms have r: "r = root_object" by simp
  let ?st2 = "(if active st = None then st\<lparr>active := Some (hd (selected_objects st))\<rparr> else st)
      \<lparr>frame_start := if 0 \<le> fst rng then \<lfloor>fst rng\<rfloor> else \<lceil>fst rng\<rceil>,
        frame_end := if 0 \<le> snd rng then \<lfloor>snd rng\<rfloor> else \<lceil>snd rng\<rceil>\<rparr>"
  have st2: "action_ref ?st2 = action_ref st" "nla_of ?st2 = nla_of st" "actions ?st2 = actions st"
    by (simp_all add: refs_objects_eq [of ?st2 st])
  obtain res st3 where csa:
    "create_standalone_action self root_object animated_objects ?st2 = (res, st3)"
    by (cases "create_standalone_action self root_object animated_objects ?st2")
  have fst_ex: "fst (execute self st) = res"
    using 4(6) csa r by (cases res) simp_all
  have "objects (snd (execute self st)) = objects st3 \<and> actions (snd (execute self st)) = actions st3"
    using 4(6) csa r by (cases res) (simp_all add: restore_state_rest)
  then have ex: "action_ref (snd (execute self st)) = action_ref st3"
    "nla_of (snd (execute self st)) = nla_of st3"
    "actions (snd (execute self st)) = actions st3"
    by (simp_all add: refs_objects_eq [of "snd (execute self st)" st3])
  note facts = create_standalone_action_refs [where self = self and root_object = root_object
      and animated_objects = animated_objects and st = ?st2,
      unfolded csa fst_conv snd_conv st2]
  have keep: "keep_original_actions self \<Longrightarrow> n \<noteq> name root_object \<Longrightarrow>
      action_ref st3 n = action_ref st n \<and> nla_of st3 n = nla_of st n" for n
    using facts(3) by blast
  have removed: "action_ref st3 (name obj) = None \<and> nla_of st3 (name obj) = []"
    if "\<not> keep_original_actions self" "res = Inr FINISHED"
      "obj \<in> set (get_hierarchy_objects root_object)" "name obj \<noteq> name root_object"
      "has_action st obj" for obj
  proof -
    from that(3,5) 4(3) r have "obj \<in> set animated_objects" by simp
    moreover from that(5) have "action_ref st (name obj) \<noteq> None"
      by (simp add: has_action_ref)
    ultimately show ?thesis
      using facts(4) [OF that(1,2) _ that(4)] by blast
  qed
  show ?case
    unfolding ex fst_ex using facts(1,2) keep removed by blast
qed

lemma example_run_remove:
  "fst (execute (example_operator\<lparr>keep_original_actions := False\<rparr>) example_scene) = Inr FINISHED"
  by (simp add: example_defs run_defs Let_def)

theorem keep_original_actions_effect_witness:
  "find_root_object (selected_objects example_scene) = Some example_rig \<and>
   action_ref (snd (execute example_operator example_scene)) ''Arm.L'' = Some 0 \<and>
   nla_of (snd (execute example_operator example_scene)) ''Arm.L'' = [''NlaTrack''] \<and>
   action_ref (snd (execute example_operator example_scene)) ''Rig'' = Some 1 \<and>
   action_ref (snd (execute (example_operator\<lparr>keep_original_actions := False\<rparr>) example_scene))
     ''Arm.L'' = None \<and>
   nla_of (snd (execute (example_operator\<lparr>keep_original_actions := False\<rparr>) example_scene))
     ''Arm.L'' = []"
proof -
  have a: "action_ref example_scene ''Arm.L'' = Some 0" "nla_of example_scene ''Arm.L'' = [''NlaTrack'']"
    "has_action example_scene example_arm" "length (actions example_scene) = 1"
    "example_arm \<in> set (get_hierarchy_objects example_rig)"
    by (simp_all add: example_defs action_ref_def nla_of_def has_action_def)
  from keep_original_actions_effect [OF example_root, of example_operator]
    keep_original_actions_effect [OF example_root, of "example_operator\<lparr>keep_original_actions := False\<rparr>"]
    example_run example_run_remove example_root a
  show ?thesis
    by (auto simp: example_operator_def example_rig_def example_arm_def)
qed

subsection \<open>More on loops\<close>

lemma for_each_inv:
  assumes "\<And>x s. I s \<Longrightarrow> I (snd (body x s))" "I s"
  shows "I (snd (for_each body xs s))"
  using assms(2)
proof (induction xs arbitrary: s)
  case Nil
  then show ?case by simp
next
  case (Cons x xs)
  obtain e s' where b: "body x s = (e, s')"
    by (cases "body x s")
  have "I s'"
    using assms(1) [OF Cons.prems, of x] b by simp
  with b Cons.IH [of s'] show ?case
    by (cases e) simp_all
qed

lemma for_each_establish:
  assumes "x \<in> set xs" "fst (for_each body xs s) = None" "P s"
    and inv: "\<And>y t. P t \<Longrightarrow> P (snd (body y t))"
    and stable: "\<And>y t. P t \<Longrightarrow> Q t \<Longrightarrow> Q (snd (body y t))"
    and est: "\<And>t. P t \<Longrightarrow> fst (body x t) = None \<Longrightarrow> Q (snd (body x t))"
  shows "Q (snd (for_each body xs s))"
  using assms(1-3)
proof (induction xs arbitrary: s)
  case Nil
  then show ?case by simp
next
  case (Cons y ys)
  obtain e s' where b: "body y s = (e, s')"
    by (cases "body y s")
  from Cons.prems(2) b have e: "e = None" and rest: "fst (for_each body ys s') = None"
    by (cases e; simp)+
  have P': "P s'"
    using inv [OF Cons.prems(3), of y] b by simp
  show ?case
  proof (cases "x = y")
    case True
    have "Q s'"
      using est [OF Cons.prems(3)] b e True by simp
    then have "P s' \<and> Q s'" using P' by simp
    then have "P (snd (for_each body ys s')) \<and> Q (snd (for_each body ys s'))"
      by (rule for_each_inv [rotated]) (auto intro: inv stable)
    with b e show ?thesis by simp
  next
    case False
    with Cons.prems(1) have "x \<in> set ys" by simp
    from Cons.IH [OF this rest P'] b e show ?thesis by simp
  qed
qed

lemma for_each_None_elem:
  assumes "x \<in> set xs" "fst (for_each body xs s) = None"
  shows "\<exists>t. fst (body x t) = None"
  using assms
proof (induction xs arbitrary: s)
  case Nil
  then show ?case by simp
next
  case (Cons y ys)
  obtain e s' where b: "body y s = (e, s')"
    by (cases "body y s")
  from Cons.prems(2) b have e: "e = None" and rest: "fst (for_each body ys s') = None"
    by (cases e; simp)+
  show ?case
  proof (cases "x = y")
    case True
    with b e have "fst (body x s) = None" by simp
    then show ?thesis ..
  next
    case False
    with Cons.prems(1) have "x \<in> set ys" by simp
    from Cons.IH [OF this rest] show ?thesis .
  qed
qed

lemma for_each_all_None:
  assumes "\<And>x t. x \<in> set xs \<Longrightarrow> fst (body x t) = None"
  shows "fst (for_each body xs s) = None"
  using assms
proof (induction xs arbitrary: s)
  case Nil
  then show ?case by simp
next
  case (Cons y ys)
  obtain e s' where b: "body y s = (e, s')"
    by (cases "body y s")
  have "e = None"
    using Cons.prems [of y s] b by simp
  moreover have "fst (for_each body ys s') = None"
    by (rule Cons.IH) (simp add: Cons.prems)
  ultimately show ?case
    using b by simp
qed

subsection \<open>The collected dictionary\<close>

lemma set_update_subset: "set (AList.update k v al) \<subseteq> insert (k, v) (set al)"
  by (induction al) auto

lemma collect_fcurve_sound:
  assumes "(p, axes) \<in> set (collect_fcurve fc d)" "(a, k) \<in> set axes"
  shows "(data_path fc = p \<and> array_index fc = a \<and> keyframe_points fc = k) \<or>
         (\<exists>axes'. (p, axes') \<in> set d \<and> (a, k) \<in> set axes')"
proof (cases "map_of d (data_path fc)")
  case None
  with assms(1) have "(p, axes) \<in> insert (data_path fc, [(array_index fc, keyframe_points fc)]) (set d)"
    using set_update_subset [of "data_path fc" "[(array_index fc, keyframe_points fc)]" d]
    by (auto simp: collect_fcurve_def Let_def)
  with assms(2) show ?thesis by auto
next
  case (Some axes0)
  then have in_d: "(data_path fc, axes0) \<in> set d"
    by (rule map_of_SomeD)
  from Some assms(1)
  have "(p, axes) \<in> insert (data_path fc, AList.update (array_index fc) (keyframe_points fc) axes0) (set d)"
    using set_update_subset [of "data_path fc"
        "AList.update (array_index fc) (keyframe_points fc) axes0" d]
    by (auto simp: collect_fcurve_def Let_def)
  then show ?thesis
  proof
    assume "(p, axes) = (data_path fc, AList.update (array_index fc) (keyframe_points fc) axes0)"
    with assms(2) have "p = data_path fc"
      "(a, k) \<in> insert (array_index fc, keyframe_points fc) (set axes0)"
      using set_update_subset [of "array_index fc" "keyframe_points fc" axes0] by auto
    with in_d show ?thesis by auto
  next
    assume "(p, axes) \<in> set d"
    with assms(2) show ?thesis by auto
  qed
qed

lemma fold_collect_fcurve_sound:
  assumes "(p, axes) \<in> set (fold collect_fcurve fcs d)" "(a, k) \<in> set axes"
  shows "(\<exists>fc\<in>set fcs. data_path fc = p \<and> array_index fc = a \<and> keyframe_points fc = k) \<or>
         (\<exists>axes'. (p, axes') \<in> set d \<and> (a, k) \<in> set axes')"
  using assms
proof (induction fcs arbitrary: d)
  case Nil
  then show ?case by auto
next
  case (Cons fc fcs)
  from Cons.IH [of "collect_fcurve fc d"] Cons.prems
  have "(\<exists>fc\<in>set fcs. data_path fc = p \<and> array_index fc = a \<and> keyframe_points fc = k) \<or>
        (\<exists>axes'. (p, axes') \<in> set (collect_fcurve fc d) \<and> (a, k) \<in> set axes')"
    by simp
  then show ?case
    using collect_fcurve_sound [of p _ fc d a k] by auto
qed

lemma collect_object_sound:
  assumes "(n, props) \<in> set (fold (collect_object st) objs d)"
  shows "(n, props) \<in> set d \<or>
         (\<exists>obj\<in>set objs. name obj = n \<and> has_action st obj \<and>
            props = fold collect_fcurve (action_fcurves st obj) [])"
  using assms
proof (induction objs arbitrary: d)
  case Nil
  then show ?case by simp
next
  case (Cons x objs)
  from Cons.IH [of "collect_object st x d"] Cons.prems
  have "(n, props) \<in> set (collect_object st x d) \<or>
        (\<exists>obj\<in>set objs. name obj = n \<and> has_action st obj \<and>
            props = fold collect_fcurve (action_fcurves st obj) [])"
    by simp
  moreover have "(n, props) \<in> set (collect_object st x d) \<Longrightarrow>
      (n, props) \<in> set d \<or>
      (name x = n \<and> has_action st x \<and> props = fold collect_fcurve (action_fcurves st x) [])"
    using set_update_subset [of "name x" "fold collect_fcurve (action_fcurves st x) []" d]
    by (auto simp: collect_object_def Let_def split: if_splits)
  ultimately show ?case by auto
qed

text \<open>Every channel of the dictionary is a curve of the action of an animated object.\<close>

lemma collect_animation_data_sound:
  assumes "(n, props) \<in> set (collect_animation_data st objs)" "(p, axes) \<in> set props"
    "(a, k) \<in> set axes"
  shows "\<exists>obj\<in>set objs. name obj = n \<and> has_action st obj \<and>
           (\<exists>fc\<in>set (action_fcurves st obj).
              data_path fc = p \<and> array_index fc = a \<and> keyframe_points fc = k)"
proof -
  from collect_object_sound [of n props st objs "[]"] assms(1)
  obtain obj where obj: "obj \<in> set objs" "name obj = n" "has_action st obj"
    "props = fold collect_fcurve (action_fcurves st obj) []"
    by (auto simp: collect_animation_data_def)
  from fold_collect_fcurve_sound [of p axes "action_fcurves st obj" "[]" a k] assms(2,3) obj(4)
  have "\<exists>fc\<in>set (action_fcurves st obj).
          data_path fc = p \<and> array_index fc = a \<and> keyframe_points fc = k"
    by simp
  with obj show ?thesis by blast
qed


lemma channel_keyframes_collect_fcurve:
  "channel_keyframes (collect_fcurve fc d) p a =
     (if p = data_path fc \<and> a = array_index fc then Some (keyframe_points fc)
      else channel_keyframes d p a)"
  by (cases "map_of d (data_path fc)")
     (simp_all add: channel_keyframes_def collect_fcurve_def Let_def update_conv')

lemma channel_keyframes_other:
  assumes "(p, a) \<notin> (\<lambda>c. (data_path c, array_index c)) ` set fcs"
  shows "channel_keyframes (fold collect_fcurve fcs d) p a = channel_keyframes d p a"
  using assms
  by (induction fcs arbitrary: d) (auto simp: channel_keyframes_collect_fcurve)

lemma channel_keyframes_kept:
  assumes "channel_keyframes d p a \<noteq> None"
  shows "channel_keyframes (fold collect_fcurve fcs d) p a \<noteq> None"
  using assms
  by (induction fcs arbitrary: d) (simp_all add: channel_keyframes_collect_fcurve)

lemma channel_keyframes_present:
  assumes "fc \<in> set fcs"
  shows "channel_keyframes (fold collect_fcurve fcs d) (data_path fc) (array_index fc) \<noteq> None"
  using assms
proof (induction fcs arbitrary: d)
  case Nil
  then show ?case by simp
next
  case (Cons c fcs)
  show ?case
  proof (cases "fc = c")
    case True
    then show ?thesis
      by (simp add: channel_keyframes_kept channel_keyframes_collect_fcurve)
  next
    case False
    with Cons show ?thesis by simp
  qed
qed

lemma channel_keyframes_distinct:
  assumes "fc \<in> set fcs" "distinct (map (\<lambda>c. (data_path c, array_index c)) fcs)"
  shows "channel_keyframes (fold collect_fcurve fcs d) (data_path fc) (array_index fc)
         = Some (keyframe_points fc)"
  using assms
proof (induction fcs arbitrary: d)
  case Nil
  then show ?case by simp
next
  case (Cons c fcs)
  show ?case
  proof (cases "fc = c")
    case True
    with Cons.prems(2)
    have "(data_path fc, array_index fc) \<notin> (\<lambda>c. (data_path c, array_index c)) ` set fcs"
      by simp
    from channel_keyframes_other [OF this] True show ?thesis
      by (simp add: channel_keyframes_collect_fcurve)
  next
    case False
    with Cons show ?thesis by simp
  qed
qed

lemma channel_keyframes_member:
  assumes "channel_keyframes d p a = Some k"
  shows "\<exists>axes. (p, axes) \<in> set d \<and> (a, k) \<in> set axes"
  using assms
  by (auto simp: channel_keyframes_def split: option.splits dest: map_of_SomeD)

lemma fold_collect_fcurve_nonempty:
  "fcs \<noteq> [] \<or> d \<noteq> [] \<Longrightarrow> fold collect_fcurve fcs d \<noteq> []"
proof (induction fcs arbitrary: d)
  case Nil
  then show ?case by simp
next
  case (Cons c fcs)
  have "collect_fcurve c d \<noteq> []"
    by (simp add: collect_fcurve_def Let_def split: option.split)
  then show ?case
    using Cons.IH [of "collect_fcurve c d"] by simp
qed

lemma same_name:
  assumes "name x = name y"
  shows "has_action st x = has_action st y" "action_fcurves st x = action_fcurves st y"
  using assms by (simp_all add: has_action_def action_fcurves_def)

lemma map_of_collect_object:
  "map_of (collect_object st x d) n =
     (if name x = n \<and> has_action st x \<and> action_fcurves st x \<noteq> []
      then Some (fold collect_fcurve (action_fcurves st x) [])
      else map_of d n)"
  using fold_collect_fcurve_nonempty [of "action_fcurves st x" "[]"]
  by (auto simp: collect_object_def Let_def update_conv')

lemma map_of_collect_kept:
  assumes "map_of d (name obj) = Some (fold collect_fcurve (action_fcurves st obj) [])"
  shows "map_of (fold (collect_object st) objs d) (name obj)
         = Some (fold collect_fcurve (action_fcurves st obj) [])"
  using assms
proof (induction objs arbitrary: d)
  case Nil
  then show ?case by simp
next
  case (Cons x objs)
  have "map_of (collect_object st x d) (name obj)
        = Some (fold collect_fcurve (action_fcurves st obj) [])"
    using Cons.prems same_name(2) [of x obj st] by (simp add: map_of_collect_object)
  from Cons.IH [OF this] show ?case by simp
qed

lemma map_of_collect_present:
  assumes "obj \<in> set objs" "has_action st obj" "action_fcurves st obj \<noteq> []"
  shows "map_of (fold (collect_object st) objs d) (name obj)
         = Some (fold collect_fcurve (action_fcurves st obj) [])"
  using assms(1)
proof (induction objs arbitrary: d)
  case Nil
  then show ?case by simp
next
  case (Cons x objs)
  show ?case
  proof (cases "obj = x")
    case True
    have "map_of (collect_object st x d) (name obj)
          = Some (fold collect_fcurve (action_fcurves st obj) [])"
      using True assms(2,3) by (simp add: map_of_collect_object)
    from map_of_collect_kept [OF this] show ?thesis by simp
  next
    case False
    with Cons show ?thesis by simp
  qed
qed

lemma action_fcurves_has_action: "fc \<in> set (action_fcurves st obj) \<Longrightarrow> has_action st obj"
proof (cases "animation_data (objects st (name obj))")
  case None
  then show "fc \<in> set (action_fcurves st obj) \<Longrightarrow> has_action st obj"
    by (simp add: action_fcurves_def)
next
  case (Some ad)
  then show "fc \<in> set (action_fcurves st obj) \<Longrightarrow> has_action st obj"
    by (cases "action ad") (simp_all add: action_fcurves_def has_action_def)
qed

text \<open>Every curve of the action of an animated object is a channel of the dictionary.\<close>

lemma collect_animation_data_complete:
  assumes "obj \<in> set objs" "fc \<in> set (action_fcurves st obj)"
  shows "\<exists>props axes k.
           (name obj, props) \<in> set (collect_animation_data st objs) \<and>
           (data_path fc, axes) \<in> set props \<and> (array_index fc, k) \<in> set axes \<and>
           (distinct (map (\<lambda>c. (data_path c, array_index c)) (action_fcurves st obj)) \<longrightarrow>
              k = keyframe_points fc)"
proof -
  let ?props = "fold collect_fcurve (action_fcurves st obj) []"
  have ha: "has_action st obj" and ne: "action_fcurves st obj \<noteq> []"
    using assms(2) action_fcurves_has_action by auto
  have "map_of (collect_animation_data st objs) (name obj) = Some ?props"
    unfolding collect_animation_data_def by (rule map_of_collect_present [OF assms(1) ha ne])
  then have in_dict: "(name obj, ?props) \<in> set (collect_animation_data st objs)"
    by (rule map_of_SomeD)
  obtain k where k: "channel_keyframes ?props (data_path fc) (array_index fc) = Some k"
    using channel_keyframes_present [OF assms(2), of "[]"] by auto
  from channel_keyframes_member [OF k] obtain axes where
    axes: "(data_path fc, axes) \<in> set ?props" "(array_index fc, k) \<in> set axes"
    by blast
  have "k = keyframe_points fc"
    if "distinct (map (\<lambda>c. (data_path c, array_index c)) (action_fcurves st obj))"
    using channel_keyframes_distinct [OF assms(2) that, of "[]"] k by simp
  with in_dict axes show ?thesis by blast
qed

subsection \<open>Establishing a fact in a pass\<close>

lemma first_pass_unfold:
  "first_pass root_name master dict st =
     for_each (\<lambda>x. for_each (\<lambda>y. for_each (first_pass_axis root_name master (fst x) (fst y))
       (snd y)) (snd x)) dict st"
  by (simp add: first_pass_def case_prod_unfold)



lemma second_pass_establish:
  assumes mem: "(n, props) \<in> set dict" "(p, axes) \<in> set props" "ax \<in> set axes"
    and sel: "n \<noteq> root_name" "p \<in> set transform_props"
    and ok: "fst (second_pass root_name dict st) = None"
    and P: "P st"
    and present: "\<And>t. P t \<Longrightarrow> n \<in> data_objects t"
    and inv: "\<And>n' p' ax' t. P t \<Longrightarrow> P (snd (second_pass_axis root_name n' p' ax' t))"
    and inv_e: "\<And>n' t. P t \<Longrightarrow> P (ensure_animation_data n' t)"
    and stable: "\<And>n' p' ax' t. P t \<Longrightarrow> Q t \<Longrightarrow>
                   Q (snd (second_pass_axis root_name n' p' ax' t))"
    and stable_e: "\<And>n' t. P t \<Longrightarrow> Q t \<Longrightarrow> Q (ensure_animation_data n' t)"
    and est: "\<And>t. P t \<Longrightarrow> fst (second_pass_axis root_name n p ax t) = None \<Longrightarrow>
                Q (snd (second_pass_axis root_name n p ax t))"
  shows "Q (snd (second_pass root_name dict st))"
proof -
  let ?A = "second_pass_axis root_name"
  let ?B = "second_pass_prop root_name"
  let ?C = "second_pass_object root_name"
  have PQ_A: "P (snd (?A n' p' ax' t)) \<and> Q (snd (?A n' p' ax' t))" if "P t \<and> Q t" for n' p' ax' t
    using inv stable that by blast
  have P_B: "P (snd (?B n' y t))" if "P t" for n' y t
  proof (cases "fst y \<in> set transform_props")
    case True
    have "P (snd (for_each (?A n' (fst y)) (snd y) t))"
      by (rule for_each_inv [where I = P]) (rule inv, assumption, rule that)
    with True show ?thesis by (simp add: second_pass_prop_def)
  next
    case False
    with that show ?thesis by (simp add: second_pass_prop_def)
  qed
  have PQ_B: "P (snd (?B n' y t)) \<and> Q (snd (?B n' y t))" if "P t \<and> Q t" for n' y t
  proof (cases "fst y \<in> set transform_props")
    case True
    have "P (snd (for_each (?A n' (fst y)) (snd y) t)) \<and> Q (snd (for_each (?A n' (fst y)) (snd y) t))"
      by (rule for_each_inv [where I = "\<lambda>t. P t \<and> Q t"]) (rule PQ_A, assumption, rule that)
    with True show ?thesis by (simp add: second_pass_prop_def)
  next
    case False
    with that show ?thesis by (simp add: second_pass_prop_def)
  qed
  have P_C: "P (snd (?C x t))" if "P t" for x t
  proof (cases "fst x = root_name \<or> fst x \<notin> data_objects t")
    case True
    with that show ?thesis by (auto simp: second_pass_object_def)
  next
    case False
    have "P (snd (for_each (?B (fst x)) (snd x) (ensure_animation_data (fst x) t)))"
      by (rule for_each_inv [where I = P]) (rule P_B, assumption, rule inv_e, rule that)
    with False show ?thesis by (simp add: second_pass_object_def)
  qed
  have PQ_C: "P (snd (?C x t)) \<and> Q (snd (?C x t))" if "P t \<and> Q t" for x t
  proof (cases "fst x = root_name \<or> fst x \<notin> data_objects t")
    case True
    with that show ?thesis by (auto simp: second_pass_object_def)
  next
    case False
    have "P (ensure_animation_data (fst x) t) \<and> Q (ensure_animation_data (fst x) t)"
      using that inv_e stable_e by blast
    then have "P (snd (for_each (?B (fst x)) (snd x) (ensure_animation_data (fst x) t))) \<and>
               Q (snd (for_each (?B (fst x)) (snd x) (ensure_animation_data (fst x) t)))"
      by (rule for_each_inv [where I = "\<lambda>t. P t \<and> Q t", rotated]) (rule PQ_B)
    with False show ?thesis by (simp add: second_pass_object_def)
  qed
  have est_B: "Q (snd (?B n (p, axes) t))" if "P t" "fst (?B n (p, axes) t) = None" for t
  proof -
    have "Q (snd (for_each (?A n p) axes t))"
    proof (rule for_each_establish [where body = "?A n p" and P = P and x = ax])
      show "ax \<in> set axes" by (rule mem(3))
      show "fst (for_each (?A n p) axes t) = None"
        using that(2) sel(2) by (simp add: second_pass_prop_def)
      show "P t" by (rule that(1))
      show "\<And>y t. P t \<Longrightarrow> P (snd (?A n p y t))" by (rule inv)
      show "\<And>y t. P t \<Longrightarrow> Q t \<Longrightarrow> Q (snd (?A n p y t))" by (rule stable)
      show "\<And>t. P t \<Longrightarrow> fst (?A n p ax t) = None \<Longrightarrow> Q (snd (?A n p ax t))" by (rule est)
    qed
    with sel(2) show ?thesis by (simp add: second_pass_prop_def)
  qed
  have est_C: "Q (snd (?C (n, props) t))" if "P t" "fst (?C (n, props) t) = None" for t
  proof -
    let ?t = "ensure_animation_data n t"
    have here: "n \<in> data_objects t" using present that(1) by blast
    have "Q (snd (for_each (?B n) props ?t))"
    proof (rule for_each_establish [where body = "?B n" and P = P and x = "(p, axes)"])
      show "(p, axes) \<in> set props" by (rule mem(2))
      show "fst (for_each (?B n) props ?t) = None"
        using that(2) sel(1) here by (simp add: second_pass_object_def)
      show "P ?t" using that(1) by (rule inv_e)
      show "\<And>y t. P t \<Longrightarrow> P (snd (?B n y t))" by (rule P_B)
      show "\<And>y t. P t \<Longrightarrow> Q t \<Longrightarrow> Q (snd (?B n y t))" using PQ_B by blast
      show "\<And>t. P t \<Longrightarrow> fst (?B n (p, axes) t) = None \<Longrightarrow> Q (snd (?B n (p, axes) t))"
        by (rule est_B)
    qed
    with sel(1) here show ?thesis by (simp add: second_pass_object_def)
  qed
  show ?thesis
    unfolding second_pass_def
  proof (rule for_each_establish [where body = ?C and P = P and x = "(n, props)"])
    show "(n, props) \<in> set dict" by (rule mem(1))
    show "fst (for_each ?C dict st) = None" using ok by (simp add: second_pass_def)
    show "P st" by (rule P)
    show "\<And>y t. P t \<Longrightarrow> P (snd (?C y t))" by (rule P_C)
    show "\<And>y t. P t \<Longrightarrow> Q t \<Longrightarrow> Q (snd (?C y t))" using PQ_C by blast
    show "\<And>t. P t \<Longrightarrow> fst (?C (n, props) t) = None \<Longrightarrow> Q (snd (?C (n, props) t))"
      by (rule est_C)
  qed
qed

subsection \<open>When a pass raises\<close>

lemma prop_key_Inr_iff: "(\<exists>key. prop_key n p a = Inr key) \<longleftrightarrow> a < 3"
  by (simp add: prop_key_def component_def)

lemma first_pass_axis_None_iff:
  "fst (first_pass_axis root_name master n p ax t) = None \<longleftrightarrow>
     (n \<noteq> root_name \<and> p \<in> set transform_props \<longrightarrow> fst ax < 3)"
  using prop_key_Inr_iff [of n p "fst ax"]
  by (cases "prop_key n p (fst ax)") (auto simp: first_pass_axis_def Let_def)

lemma second_pass_axis_None_iff:
  "fst (second_pass_axis root_name n p ax t) = None \<longleftrightarrow> fst ax < 3"
  using prop_key_Inr_iff [of n p "fst ax"]
  by (cases "prop_key n p (fst ax)") (auto simp: second_pass_axis_def Let_def)

lemma first_pass_None_iff:
  "fst (first_pass root_name master dict st) = None \<longleftrightarrow> indices_ok root_name dict"
proof
  assume ok: "fst (first_pass root_name master dict st) = None"
  show "indices_ok root_name dict"
    unfolding indices_ok_def
  proof (intro ballI impI)
    fix x y z
    assume mem: "x \<in> set dict" "y \<in> set (snd x)" "z \<in> set (snd y)"
      and sel: "fst x \<noteq> root_name" "fst y \<in> set transform_props"
    from for_each_None_elem [OF mem(1) ok [unfolded first_pass_unfold]]
    obtain t1 where "fst (for_each (\<lambda>y. for_each (first_pass_axis root_name master (fst x) (fst y))
        (snd y)) (snd x) t1) = None"
      by blast
    from for_each_None_elem [OF mem(2) this]
    obtain t2 where "fst (for_each (first_pass_axis root_name master (fst x) (fst y)) (snd y) t2) = None"
      by blast
    from for_each_None_elem [OF mem(3) this]
    obtain t3 where "fst (first_pass_axis root_name master (fst x) (fst y) z t3) = None"
      by blast
    with sel show "fst z < 3"
      by (simp add: first_pass_axis_None_iff)
  qed
next
  assume ok: "indices_ok root_name dict"
  show "fst (first_pass root_name master dict st) = None"
    unfolding first_pass_unfold
  proof (intro for_each_all_None)
    fix x y z t1 t2 t3
    assume "x \<in> set dict" "y \<in> set (snd x)" "z \<in> set (snd y)"
    with ok show "fst (first_pass_axis root_name master (fst x) (fst y) z t3) = None"
      unfolding indices_ok_def first_pass_axis_None_iff by blast
  qed
qed

lemma second_pass_None:
  assumes "indices_ok root_name dict"
  shows "fst (second_pass root_name dict st) = None"
  unfolding second_pass_def
proof (rule for_each_all_None)
  fix x t
  assume x: "x \<in> set dict"
  have prop_ok: "fst (second_pass_prop root_name (fst x) y t') = None"
    if "fst x \<noteq> root_name" "y \<in> set (snd x)" for y t'
  proof (cases "fst y \<in> set transform_props")
    case True
    have "fst (for_each (second_pass_axis root_name (fst x) (fst y)) (snd y) t') = None"
    proof (rule for_each_all_None)
      fix z t''
      assume "z \<in> set (snd y)"
      with assms x that True show "fst (second_pass_axis root_name (fst x) (fst y) z t'') = None"
        unfolding indices_ok_def second_pass_axis_None_iff by blast
    qed
    with True show ?thesis by (simp add: second_pass_prop_def)
  next
    case False
    then show ?thesis by (simp add: second_pass_prop_def)
  qed
  show "fst (second_pass_object root_name x t) = None"
  proof (cases "fst x = root_name \<or> fst x \<notin> data_objects t")
    case True
    then show ?thesis by (auto simp: second_pass_object_def)
  next
    case False
    have "fst (for_each (second_pass_prop root_name (fst x)) (snd x)
            (ensure_animation_data (fst x) t)) = None"
      by (rule for_each_all_None) (use False prop_ok in blast)
    with False show ?thesis by (simp add: second_pass_object_def)
  qed
qed

subsection \<open>Drivers and reports\<close>

lemma drivers_of_update_anim:
  "drivers_of (update_anim n g st) m =
     (if m = n then (case animation_data (objects st n) of None \<Rightarrow> [] | Some ad \<Rightarrow> drivers (g ad))
      else drivers_of st m)"
  by (simp add: drivers_of_def update_anim_def split: option.split)

lemma drivers_of_ensure [simp]: "drivers_of (ensure_animation_data n st) = drivers_of st"
  by (rule ext) (simp add: drivers_of_def ensure_animation_data_def animation_data_create_def
      empty_anim_data_def)

lemma drivers_of_report [simp]: "drivers_of (report l m st) = drivers_of st"
  by (rule ext) (simp add: drivers_of_def report_def)

lemma drivers_of_driver_remove:
  "drivers_of (driver_remove n path idx st) m =
     (if m = n
      then filter (\<lambda>d. \<not> (driver_data_path d = path \<and> driver_array_index d = idx)) (drivers_of st n)
      else drivers_of st m)"
  unfolding driver_remove_def drivers_of_update_anim
  by (simp add: drivers_of_def split: option.split)

lemma drivers_of_append:
  "drivers_of (update_anim n (\<lambda>ad. ad\<lparr>drivers := drivers ad @ [d]\<rparr>) st) m =
     (if m = n \<and> animation_data (objects st n) \<noteq> None then drivers_of st n @ [d]
      else drivers_of st m)"
  unfolding drivers_of_update_anim
  by (simp add: drivers_of_def split: option.split)

lemma drivers_of_driver_add:
  "drivers_of (driver_add n d st) m = (if m = n then drivers_of st n @ [d] else drivers_of st m)"
  unfolding driver_add_def drivers_of_append
  using ensure_animation_data_Some [of n st] by simp

lemma drivers_of_remove_original [simp]:
  "drivers_of (remove_original root_name obj st) = drivers_of st"
proof
  fix m
  have a: "drivers_of (update_anim n (\<lambda>ad. ad\<lparr>nla_tracks := []\<rparr>) s) m = drivers_of s m" for n s
    unfolding drivers_of_update_anim by (simp add: drivers_of_def split: option.split)
  have b: "drivers_of (update_anim n (\<lambda>ad. ad\<lparr>action := None\<rparr>) s) m = drivers_of s m" for n s
    unfolding drivers_of_update_anim by (simp add: drivers_of_def split: option.split)
  show "drivers_of (remove_original root_name obj st) m = drivers_of st m"
    by (simp add: remove_original_def a b)
qed

lemma drivers_of_fold_remove [simp]:
  "drivers_of (fold (remove_original root_name) objs st) = drivers_of st"
  by (rule fold_proj) simp

lemma reports_update_anim [simp]: "reports (update_anim n g st) = reports st"
  by (simp add: update_anim_def split: option.split)

lemma reports_ensure [simp]: "reports (ensure_animation_data n st) = reports st"
  by (simp add: ensure_animation_data_def animation_data_create_def)

lemma reports_driver_remove [simp]: "reports (driver_remove n path idx st) = reports st"
  by (simp add: driver_remove_def)

lemma reports_driver_add [simp]: "reports (driver_add n d st) = reports st"
  by (simp add: driver_add_def)

lemma reports_report [simp]: "reports (report l m st) = reports st @ [(l, m)]"
  by (simp add: report_def)

lemma reports_remove_original [simp]: "reports (remove_original root_name obj st) = reports st"
  by (simp add: remove_original_def)

lemma reports_fold_remove [simp]:
  "reports (fold (remove_original root_name) objs st) = reports st"
  by (rule fold_proj) simp

subsection \<open>The dictionary of a run\<close>

lemma action_fcurves_new_action [simp]:
  "action_fcurves (st\<lparr>actions := actions st @ [\<lparr>action_name = nm, use_fake_user = u, fcurves = []\<rparr>]\<rparr>)
   = action_fcurves st"
proof
  fix obj
  show "action_fcurves (st\<lparr>actions := actions st @
          [\<lparr>action_name = nm, use_fake_user = u, fcurves = []\<rparr>]\<rparr>) obj = action_fcurves st obj"
    by (auto simp: action_fcurves_def nth_append less_Suc_eq split: option.split)
qed

lemma has_action_actions [simp]: "has_action (st\<lparr>actions := a\<rparr>) = has_action st"
  by (rule ext) (simp add: has_action_def)

lemma collect_animation_data_new_action [simp]:
  "collect_animation_data
     (st\<lparr>actions := actions st @ [\<lparr>action_name = nm, use_fake_user = u, fcurves = []\<rparr>]\<rparr>) objs
   = collect_animation_data st objs"
proof -
  have "collect_object
     (st\<lparr>actions := actions st @ [\<lparr>action_name = nm, use_fake_user = u, fcurves = []\<rparr>]\<rparr>)
     = collect_object st"
    by (intro ext) (simp add: collect_object_def)
  then show ?thesis
    by (simp add: collect_animation_data_def)
qed

lemma indices_ok_collect:
  "indices_ok root_name (collect_animation_data st objs) \<longleftrightarrow>
     (\<forall>obj\<in>set objs. name obj \<noteq> root_name \<longrightarrow>
        (\<forall>fc\<in>set (action_fcurves st obj).
           data_path fc \<in> set transform_props \<longrightarrow> array_index fc < 3))"
proof
  assume ok: "indices_ok root_name (collect_animation_data st objs)"
  show "\<forall>obj\<in>set objs. name obj \<noteq> root_name \<longrightarrow>
        (\<forall>fc\<in>set (action_fcurves st obj).
           data_path fc \<in> set transform_props \<longrightarrow> array_index fc < 3)"
  proof (intro ballI impI)
    fix obj fc
    assume "obj \<in> set objs" "fc \<in> set (action_fcurves st obj)"
      and sel: "name obj \<noteq> root_name" "data_path fc \<in> set transform_props"
    from collect_animation_data_complete [OF this(1,2)] obtain props axes k where
      "(name obj, props) \<in> set (collect_animation_data st objs)"
      "(data_path fc, axes) \<in> set props" "(array_index fc, k) \<in> set axes"
      by blast
    with ok sel show "array_index fc < 3"
      unfolding indices_ok_def by fastforce
  qed
next
  assume H: "\<forall>obj\<in>set objs. name obj \<noteq> root_name \<longrightarrow>
        (\<forall>fc\<in>set (action_fcurves st obj).
           data_path fc \<in> set transform_props \<longrightarrow> array_index fc < 3)"
  show "indices_ok root_name (collect_animation_data st objs)"
    unfolding indices_ok_def
  proof (intro ballI impI)
    fix x y z
    assume "x \<in> set (collect_animation_data st objs)" "y \<in> set (snd x)" "z \<in> set (snd y)"
      and sel: "fst x \<noteq> root_name" "fst y \<in> set transform_props"
    then have "(fst x, snd x) \<in> set (collect_animation_data st objs)"
      "(fst y, snd y) \<in> set (snd x)" "(fst z, snd z) \<in> set (snd y)"
      by simp_all
    from collect_animation_data_sound [OF this] obtain obj fc where
      "obj \<in> set objs" "name obj = fst x" "fc \<in> set (action_fcurves st obj)"
      "data_path fc = fst y" "array_index fc = fst z"
      by blast
    note found = this
    have "name obj \<noteq> root_name"
      using sel(1) found(2) by simp
    with H found(1) have "\<forall>c\<in>set (action_fcurves st obj).
        data_path c \<in> set transform_props \<longrightarrow> array_index c < 3"
      by blast
    with found(3) have "data_path fc \<in> set transform_props \<longrightarrow> array_index fc < 3"
      by blast
    with sel(2) found(4,5) show "fst z < 3"
      by simp
  qed
qed

text \<open>
  The merger finishes exactly when no transform curve of an animated object other than
  the root has an array index beyond the three components; otherwise the lookup of the
  component name raises in the first pass.
\<close>

lemma create_standalone_action_finished_iff:
  "fst (create_standalone_action self root_object animated_objects st) = Inr FINISHED \<longleftrightarrow>
     (\<forall>obj\<in>set animated_objects. name obj \<noteq> name root_object \<longrightarrow>
        (\<forall>fc\<in>set (action_fcurves st obj).
           data_path fc \<in> set transform_props \<longrightarrow> array_index fc < 3))"
proof (rule create_standalone_action_cases [of root_object st self animated_objects], goal_cases)
  case (1 e st4)
  from 1(1) have "\<not> indices_ok (name root_object) (collect_animation_data st animated_objects)"
    using first_pass_None_iff [of "name root_object" "length (actions st)"
        "collect_animation_data st animated_objects"]
    by (metis collect_animation_data_new_action fst_conv option.distinct(1))
  with 1(2) show ?case by (simp add: indices_ok_collect)
next
  case (2 e st4 st5)
  from 2(1) have "indices_ok (name root_object) (collect_animation_data st animated_objects)"
    using first_pass_None_iff [of "name root_object" "length (actions st)"
        "collect_animation_data st animated_objects"]
    by (metis collect_animation_data_new_action fst_conv)
  from second_pass_None [OF this, of st4] 2(2) show ?case by simp
next
  case (3 st4 st5)
  from 3(1) have "indices_ok (name root_object) (collect_animation_data st animated_objects)"
    using first_pass_None_iff [of "name root_object" "length (actions st)"
        "collect_animation_data st animated_objects"]
    by (metis collect_animation_data_new_action fst_conv)
  with 3(3) show ?case by (simp add: indices_ok_collect)
qed

subsection \<open>The drivers of the second pass\<close>

lemma reports_second_pass_axis:
  "set (reports t) \<subseteq> set (reports (snd (second_pass_axis root_name n p ax t)))"
  by (auto simp: second_pass_axis_def Let_def split: sum.split)

lemma second_pass_axis_warns:
  assumes "fst (second_pass_axis root_name n p ax t) = None" "driver_add_fails t n p (fst ax)"
  shows "(WARNING, DriverError n p (fst ax)) \<in> set (reports (snd (second_pass_axis root_name n p ax t)))"
  using assms by (cases "prop_key n p (fst ax)") (simp_all add: second_pass_axis_def Let_def)

lemma second_pass_axis_drives:
  assumes "fst (second_pass_axis root_name n p ax t) = None" "\<not> driver_add_fails t n p (fst ax)"
  shows "\<exists>key. prop_key n p (fst ax) = Inr key \<and>
           value_driver root_name p (fst ax) key
             \<in> set (drivers_of (snd (second_pass_axis root_name n p ax t)) n)"
  using assms
  by (cases "prop_key n p (fst ax)")
     (simp_all add: second_pass_axis_def Let_def drivers_of_driver_add)

lemma second_pass_axis_keeps_driver:
  assumes "prop_key n p a = Inr key" "value_driver root_name p a key \<in> set (drivers_of t n)"
    and "\<not> driver_add_fails t n p a"
  shows "value_driver root_name p a key
           \<in> set (drivers_of (snd (second_pass_axis root_name n' p' ax' t)) n)"
proof (cases "prop_key n' p' (fst ax')")
  case (Inl e)
  with assms(2) show ?thesis by (simp add: second_pass_axis_def Let_def)
next
  case (Inr key')
  show ?thesis
  proof (cases "n' = n \<and> p' = p \<and> fst ax' = a")
    case True
    with Inr assms show ?thesis
      by (simp add: second_pass_axis_def Let_def drivers_of_driver_add)
  next
    case False
    then have "value_driver root_name p a key \<in> set (drivers_of (driver_remove n' p' (fst ax') t) n)"
      using assms(2) by (auto simp: drivers_of_driver_remove value_driver_def)
    with Inr show ?thesis
      by (auto simp: second_pass_axis_def Let_def drivers_of_driver_add)
  qed
qed

lemma second_pass_driver_outcome:
  assumes mem: "(n, props) \<in> set dict" "(p, axes) \<in> set props" "(a, k) \<in> set axes"
    and sel: "n \<noteq> root_name" "p \<in> set transform_props" "n \<in> data_objects st"
    and ok: "second_pass root_name dict st = (None, st')"
  shows "if driver_add_fails st n p a
         then (WARNING, DriverError n p a) \<in> set (reports st')
         else \<exists>key. prop_key n p a = Inr key \<and>
                value_driver root_name p a key \<in> set (drivers_of st' n)"
proof -
  let ?P = "\<lambda>t. editor_state t = editor_state st"
  have ok': "fst (second_pass root_name dict st) = None" and st': "snd (second_pass root_name dict st) = st'"
    using ok by simp_all
  have present: "\<And>t. ?P t \<Longrightarrow> n \<in> data_objects t"
    using sel(3) by (simp add: editor_state_def)
  have fails: "\<And>t. ?P t \<Longrightarrow> driver_add_fails t = driver_add_fails st"
    by (simp add: editor_state_def)
  show ?thesis
  proof (cases "driver_add_fails st n p a")
    case True
    have "(WARNING, DriverError n p a) \<in> set (reports (snd (second_pass root_name dict st)))"
    proof (rule second_pass_establish [where P = ?P and n = n and p = p and ax = "(a, k)",
          OF mem sel(1,2) ok'])
      show "?P st" by simp
      show "\<And>t. ?P t \<Longrightarrow> n \<in> data_objects t" by (rule present)
      show "\<And>n' p' ax' t. ?P t \<Longrightarrow> ?P (snd (second_pass_axis root_name n' p' ax' t))"
        by (simp add: editor_state_second_pass_axis)
      show "\<And>n' t. ?P t \<Longrightarrow> ?P (ensure_animation_data n' t)" by simp
      show "(WARNING, DriverError n p a)
              \<in> set (reports (snd (second_pass_axis root_name n' p' ax' t)))"
        if "?P t" "(WARNING, DriverError n p a) \<in> set (reports t)" for n' p' ax' t
        using reports_second_pass_axis [of t root_name n' p' ax'] that(2) by (rule subsetD)
      show "\<And>n' t. ?P t \<Longrightarrow> (WARNING, DriverError n p a) \<in> set (reports t) \<Longrightarrow>
          (WARNING, DriverError n p a) \<in> set (reports (ensure_animation_data n' t))"
        by simp
      show "(WARNING, DriverError n p a)
            \<in> set (reports (snd (second_pass_axis root_name n p (a, k) t)))"
        if "?P t" "fst (second_pass_axis root_name n p (a, k) t) = None" for t
      proof -
        have "driver_add_fails t n p (fst (a, k))"
          using fails [OF that(1)] True by simp
        from second_pass_axis_warns [OF that(2) this] show ?thesis by simp
      qed
    qed
    with True st' show ?thesis by simp
  next
    case False
    let ?Q = "\<lambda>t. \<exists>key. prop_key n p a = Inr key \<and>
                value_driver root_name p a key \<in> set (drivers_of t n)"
    have "?Q (snd (second_pass root_name dict st))"
    proof (rule second_pass_establish [where P = ?P and Q = ?Q and n = n and p = p
          and ax = "(a, k)", OF mem sel(1,2) ok'])
      show "?P st" by simp
      show "\<And>t. ?P t \<Longrightarrow> n \<in> data_objects t" by (rule present)
      show "\<And>n' p' ax' t. ?P t \<Longrightarrow> ?P (snd (second_pass_axis root_name n' p' ax' t))"
        by (simp add: editor_state_second_pass_axis)
      show "\<And>n' t. ?P t \<Longrightarrow> ?P (ensure_animation_data n' t)" by simp
      show "?Q (snd (second_pass_axis root_name n' p' ax' t))" if "?P t" "?Q t" for n' p' ax' t
      proof -
        from that(2) obtain key where key: "prop_key n p a = Inr key"
          "value_driver root_name p a key \<in> set (drivers_of t n)"
          by blast
        have "\<not> driver_add_fails t n p a"
          using fails [OF that(1)] False by simp
        from second_pass_axis_keeps_driver [OF key this] key(1) show ?thesis
          by blast
      qed
      show "\<And>n' t. ?P t \<Longrightarrow> ?Q t \<Longrightarrow> ?Q (ensure_animation_data n' t)" by simp
      show "?Q (snd (second_pass_axis root_name n p (a, k) t))"
        if "?P t" "fst (second_pass_axis root_name n p (a, k) t) = None" for t
      proof -
        have "\<not> driver_add_fails t n p (fst (a, k))"
          using fails [OF that(1)] False by simp
        from second_pass_axis_drives [OF that(2) this] show ?thesis by simp
      qed
    qed
    with False st' show ?thesis by simp
  qed
qed

text \<open>
  C7. A failing \<open>driver_add\<close> does not abort the merger. Whenever no transform curve of
  an animated object other than the root has an array index beyond the three components
  (the one thing that makes the merger raise), the run returns FINISHED whichever driver
  calls fail; each channel whose driver call fails has its warning in the reports, and
  each other channel of an object in \<open>bpy.data.objects\<close> has its driver.
\<close>

theorem driver_failure_is_local:
  assumes "\<forall>obj\<in>set animated_objects. name obj \<noteq> name root_object \<longrightarrow>
             (\<forall>fc\<in>set (action_fcurves st obj).
                data_path fc \<in> set transform_props \<longrightarrow> array_index fc < 3)"
  shows "fst (create_standalone_action self root_object animated_objects st) = Inr FINISHED \<and>
         (\<forall>obj\<in>set animated_objects. \<forall>fc\<in>set (action_fcurves st obj).
            name obj \<noteq> name root_object \<and> name obj \<in> data_objects st \<and>
            data_path fc \<in> set transform_props \<longrightarrow>
            (if driver_add_fails st (name obj) (data_path fc) (array_index fc)
             then (WARNING, DriverError (name obj) (data_path fc) (array_index fc))
                    \<in> set (reports (snd (create_standalone_action self root_object
                                           animated_objects st)))
             else \<exists>key. prop_key (name obj) (data_path fc) (array_index fc) = Inr key \<and>
                    value_driver (name root_object) (data_path fc) (array_index fc) key
                      \<in> set (drivers_of (snd (create_standalone_action self root_object
                                               animated_objects st)) (name obj))))"
proof -
  have fin: "fst (create_standalone_action self root_object animated_objects st) = Inr FINISHED"
    using assms by (simp add: create_standalone_action_finished_iff)
  show ?thesis
  proof (rule create_standalone_action_cases [of root_object st self animated_objects], goal_cases)
    case (1 e st4)
    with fin show ?case by simp
  next
    case (2 e st4 st5)
    with fin show ?case by simp
  next
    case (3 st4 st5)
    let ?st6 = "if \<not> keep_original_actions self
      then fold (remove_original (name root_object)) animated_objects st5 else st5"
    have e4: "editor_state st4 = editor_state st"
      using editor_state_first_pass' [OF 3(1)] by simp
    have frame: "drivers_of (s\<lparr>frame_current := x\<rparr>) = drivers_of s" for s x
      by (rule ext) (simp add: drivers_of_def)
    have out: "reports (snd (create_standalone_action self root_object animated_objects st))
          = reports st5"
      "drivers_of (snd (create_standalone_action self root_object animated_objects st))
          = drivers_of st5"
      using 3(3) frame by simp_all
    have "if driver_add_fails st (name obj) (data_path fc) (array_index fc)
          then (WARNING, DriverError (name obj) (data_path fc) (array_index fc)) \<in> set (reports st5)
          else \<exists>key. prop_key (name obj) (data_path fc) (array_index fc) = Inr key \<and>
                 value_driver (name root_object) (data_path fc) (array_index fc) key
                   \<in> set (drivers_of st5 (name obj))"
      if "obj \<in> set animated_objects" "fc \<in> set (action_fcurves st obj)"
        "name obj \<noteq> name root_object" "name obj \<in> data_objects st"
        "data_path fc \<in> set transform_props" for obj fc
    proof -
      from collect_animation_data_complete [OF that(1,2)] obtain props axes k where
        mem: "(name obj, props) \<in> set (collect_animation_data st animated_objects)"
        "(data_path fc, axes) \<in> set props" "(array_index fc, k) \<in> set axes"
        by blast
      have "name obj \<in> data_objects st4" "driver_add_fails st4 = driver_add_fails st"
        using e4 that(4) by (simp_all add: editor_state_def)
      with second_pass_driver_outcome [OF mem that(3,5) _ 3(2) [simplified]]
      show ?thesis by simp
    qed
    with fin out show ?case by simp
  qed
qed

theorem driver_failure_is_local_witness:
  "fst (create_standalone_action example_operator example_rig [example_arm] example_failing_scene)
     = Inr FINISHED \<and>
   (WARNING, DriverError ''Arm.L'' ''location'' 0)
     \<in> set (reports (snd (create_standalone_action example_operator example_rig [example_arm]
                            example_failing_scene))) \<and>
   value_driver ''Rig'' ''scale'' 2 ''Arm_L_scale_z''
     \<in> set (drivers_of (snd (create_standalone_action example_operator example_rig [example_arm]
                               example_failing_scene)) ''Arm.L'')"
  using driver_failure_is_local [of "[example_arm]" example_rig example_failing_scene example_operator]
  by (simp add: example_failing_scene_def example_defs action_fcurves_def transform_props_def
      prop_key_def component_def clean_obj_name_def replace_char_def)

subsection \<open>Copying the keyframes\<close>




subsection \<open>The curves of the first pass\<close>






lemma custom_new_fcurve [simp]: "objects (new_fcurve a path idx ks t) = objects t"
  by (simp add: new_fcurve_def)





subsection \<open>Custom properties after the first pass\<close>

lemma custom_update_anim [simp]:
  "custom_properties (objects (update_anim n g st) m) = custom_properties (objects st m)"
  by (simp add: update_anim_def split: option.split)

lemma custom_ensure [simp]:
  "custom_properties (objects (ensure_animation_data n st) m) = custom_properties (objects st m)"
  by (simp add: ensure_animation_data_def animation_data_create_def)

lemma custom_report [simp]: "objects (report l msg st) = objects st"
  by (simp add: report_def)




subsection \<open>The clip merger\<close>





end
